theory Spec2Isabelle
  imports Main "HOL-Library.Multiset" "HOL-Library.Char_ord" "HOL-Library.List_Lexorder"
begin

section \<open>The data the script works on\<close>

text \<open>
  \<^verbatim>\<open>automation_jira.py\<close> processes the issue records that \<^verbatim>\<open>resp.json()\<close> hands it:
  Python values built from JSON. An object is a \<^verbatim>\<open>dict\<close> with string keys, kept here as
  an association list read with \<open>map_of\<close>. Numbers are integers (floating point numbers
  are left out). A Python \<^verbatim>\<open>str\<close> is a \<open>string\<close> holding its UTF-8 bytes, so that the
  order of two strings is Python's order by code point.
\<close>

datatype json =
    JNull
  | JBool bool
  | JNum int
  | JStr string
  | JArr "json list"
  | JObj "(string \<times> json) list"

text \<open>The exceptions the processing functions can raise.\<close>

datatype error = AttributeError | KeyError | TypeError | ValueError

text \<open>Python's truth value of an object: \<^verbatim>\<open>not x\<close> is \<open>\<not> truthy x\<close>.\<close>

fun truthy :: "json \<Rightarrow> bool" where
  "truthy JNull = False"
| "truthy (JBool b) = b"
| "truthy (JNum n) = (n \<noteq> 0)"
| "truthy (JStr s) = (s \<noteq> [])"
| "truthy (JArr xs) = (xs \<noteq> [])"
| "truthy (JObj kvs) = (kvs \<noteq> [])"

text \<open>
  \<^verbatim>\<open>x.get(k, d)\<close>: only a \<^verbatim>\<open>dict\<close> has the method; on any other value the attribute
  lookup raises \<^verbatim>\<open>AttributeError\<close>. \<^verbatim>\<open>x.get(k)\<close> is \<open>py_get x k JNull\<close>.
\<close>

fun py_get :: "json \<Rightarrow> string \<Rightarrow> json \<Rightarrow> error + json" where
  "py_get (JObj kvs) k d = Inr (case map_of kvs k of None \<Rightarrow> d | Some v \<Rightarrow> v)"
| "py_get _ k d = Inl AttributeError"

text \<open>
  \<^verbatim>\<open>x[k]\<close> with a string \<open>k\<close>: \<^verbatim>\<open>KeyError\<close> on a \<^verbatim>\<open>dict\<close> without the key,
  \<^verbatim>\<open>TypeError\<close> on every value that is not a \<^verbatim>\<open>dict\<close>.
\<close>

fun py_subscript :: "json \<Rightarrow> string \<Rightarrow> error + json" where
  "py_subscript (JObj kvs) k = (case map_of kvs k of None \<Rightarrow> Inl KeyError | Some v \<Rightarrow> Inr v)"
| "py_subscript _ k = Inl TypeError"

text \<open>\<^verbatim>\<open>x or d\<close>.\<close>

definition py_or :: "json \<Rightarrow> json \<Rightarrow> json" where
  "py_or x d = (if truthy x then x else d)"

text \<open>
  Keys of a \<^verbatim>\<open>dict\<close> must be hashable (a \<^verbatim>\<open>list\<close> and a \<^verbatim>\<open>dict\<close> are not), and two keys
  are the same key when Python's \<^verbatim>\<open>==\<close> holds: on hashable JSON values that is equality,
  but for \<^verbatim>\<open>True == 1\<close> and \<^verbatim>\<open>False == 0\<close>.
\<close>

fun hashable :: "json \<Rightarrow> bool" where
  "hashable (JArr xs) = False"
| "hashable (JObj kvs) = False"
| "hashable _ = True"

fun key_norm :: "json \<Rightarrow> json" where
  "key_norm (JBool b) = JNum (if b then 1 else 0)"
| "key_norm v = v"

definition py_eq :: "json \<Rightarrow> json \<Rightarrow> bool" where
  "py_eq a b = (key_norm a = key_norm b)"

text \<open>
  An owner identity is the tuple \<^verbatim>\<open>(accountId, name)\<close>. The groups and the selection are
  dicts from owner identities to lists of issues; a Python \<^verbatim>\<open>dict\<close> keeps its keys in
  the order of their first insertion, which the renderers' stable sort makes visible, so
  a dict is an association list in insertion order.
\<close>

type_synonym owner = "json \<times> json"

type_synonym groups = "(owner \<times> json list) list"

definition owner_eq :: "owner \<Rightarrow> owner \<Rightarrow> bool" where
  "owner_eq k k' = (py_eq (fst k) (fst k') \<and> py_eq (snd k) (snd k'))"

definition owner_hashable :: "owner \<Rightarrow> bool" where
  "owner_hashable k = (hashable (fst k) \<and> hashable (snd k))"

text \<open>\<^verbatim>\<open>d[k]\<close> read as \<^verbatim>\<open>d.get(k)\<close>, and the keys of a dict: pairwise different.\<close>

fun dict_lookup :: "groups \<Rightarrow> owner \<Rightarrow> json list option" where
  "dict_lookup [] k = None"
| "dict_lookup ((k', v) # g) k = (if owner_eq k' k then Some v else dict_lookup g k)"

fun is_dict :: "groups \<Rightarrow> bool" where
  "is_dict [] = True"
| "is_dict ((k, v) # g) = (owner_hashable k \<and> dict_lookup g k = None \<and> is_dict g)"

section \<open>Grouping by assignee\<close>

text \<open>
  \<^verbatim>\<open>groups.setdefault(k, []).append(issue)\<close>: the issue goes to the end of the list
  stored under \<open>k\<close>; a key not yet in the dict is added after the others.
\<close>

fun setdefault_append :: "groups \<Rightarrow> owner \<Rightarrow> json \<Rightarrow> groups" where
  "setdefault_append [] k issue = [(k, [issue])]"
| "setdefault_append ((k', items) # g) k issue =
     (if owner_eq k' k then (k', items @ [issue]) # g
      else (k', items) # setdefault_append g k issue)"

text \<open>
  The body of the loop of \<^verbatim>\<open>group_by_assignee\<close> up to the key it computes,
  \<^verbatim>\<open>(key[0], name)\<close>:
  \<^verbatim>\<open>
    fields = issue.get("fields", {})
    assignee = fields.get("assignee")
    if not assignee:
        key = ("UNASSIGNED", "(Sin asignar)")
        name = "(Sin asignar)"
    else:
        key = (assignee["accountId"], assignee.get("displayName", "Desconocido"))
        name = assignee.get("displayName", "Desconocido")
  \<close>
\<close>

definition group_key :: "json \<Rightarrow> error + owner" where
  "group_key issue =
     (case py_get issue ''fields'' (JObj []) of
        Inl e \<Rightarrow> Inl e
      | Inr fields \<Rightarrow>
          (case py_get fields ''assignee'' JNull of
             Inl e \<Rightarrow> Inl e
           | Inr assignee \<Rightarrow>
               if \<not> truthy assignee then Inr (JStr ''UNASSIGNED'', JStr ''(Sin asignar)'')
               else
                 (case py_subscript assignee ''accountId'' of
                    Inl e \<Rightarrow> Inl e
                  | Inr account_id \<Rightarrow>
                      (case py_get assignee ''displayName'' (JStr ''Desconocido'') of
                         Inl e \<Rightarrow> Inl e
                       | Inr name \<Rightarrow> Inr (account_id, name)))))"

text \<open>
  The loop: \<^verbatim>\<open>setdefault\<close> hashes the key and raises \<^verbatim>\<open>TypeError\<close> when a component
  is not hashable.
\<close>

fun group_loop :: "groups \<Rightarrow> json list \<Rightarrow> error + groups" where
  "group_loop g [] = Inr g"
| "group_loop g (issue # issues) =
     (case group_key issue of
        Inl e \<Rightarrow> Inl e
      | Inr k \<Rightarrow>
          if owner_hashable k then group_loop (setdefault_append g k issue) issues
          else Inl TypeError)"

definition group_by_assignee :: "json list \<Rightarrow> error + groups" where
  "group_by_assignee issues = group_loop [] issues"

text \<open>The issues of a list whose computed key is the key \<open>k\<close>, in the order of the list.\<close>

definition has_key :: "owner \<Rightarrow> json \<Rightarrow> bool" where
  "has_key k issue = (case group_key issue of Inl e \<Rightarrow> False | Inr k' \<Rightarrow> owner_eq k' k)"

definition issues_of :: "owner \<Rightarrow> json list \<Rightarrow> json list" where
  "issues_of k issues = filter (has_key k) issues"

section \<open>Sampling\<close>

text \<open>
  \<^verbatim>\<open>random.sample(population, k)\<close> of the standard library. It raises \<^verbatim>\<open>ValueError\<close>
  unless \<^verbatim>\<open>0 <= k <= len(population)\<close>. Otherwise it copies the population into a
  pool and draws \<open>k\<close> times: with \<open>m\<close> items left it takes the item at a random index
  \<open>j\<close> below \<open>m\<close> and moves the last of the \<open>m\<close> into its place:
  \<^verbatim>\<open>
    pool = list(population)
    for i in range(k):
        j = randbelow(n - i)
        result[i] = pool[j]
        pool[j] = pool[n - i - 1]
  \<close>
  The generator is the sequence \<open>rnd\<close> of the numbers it hands out, read from position
  \<open>pos\<close> on; \<^verbatim>\<open>randbelow(m)\<close> is the next number modulo \<open>m\<close>, so every run of the
  generator is some \<open>rnd\<close>. (For a long population the library draws indices until it
  finds a fresh one instead; the result is again one item per drawn position.)
\<close>

fun sample_pool :: "(nat \<Rightarrow> nat) \<Rightarrow> nat \<Rightarrow> 'a list \<Rightarrow> nat \<Rightarrow> nat \<Rightarrow> 'a list" where
  "sample_pool rnd pos pool m 0 = []"
| "sample_pool rnd pos pool m (Suc r) =
     (let j = rnd pos mod m
      in pool ! j # sample_pool rnd (Suc pos) (pool[j := pool ! (m - 1)]) (m - 1) r)"

definition random_sample :: "(nat \<Rightarrow> nat) \<Rightarrow> nat \<Rightarrow> 'a list \<Rightarrow> int \<Rightarrow> error + 'a list" where
  "random_sample rnd pos population k =
     (if 0 \<le> k \<and> k \<le> int (length population)
      then Inr (sample_pool rnd pos population (length population) (nat k))
      else Inl ValueError)"

text \<open>\<^verbatim>\<open>selection[k] = v\<close>.\<close>

fun dict_set :: "groups \<Rightarrow> owner \<Rightarrow> json list \<Rightarrow> groups" where
  "dict_set [] k v = [(k, v)]"
| "dict_set ((k', v') # g) k v =
     (if owner_eq k' k then (k', v) # g else (k', v') # dict_set g k v)"

text \<open>
  \<^verbatim>\<open>pick_random_per_analyst\<close>: the loop over \<^verbatim>\<open>groups.items()\<close>, each sample reading
  the generator where the one before left it.
  \<^verbatim>\<open>
    selection = {}
    for (account_id, name), items in groups.items():
        chosen = random.sample(items, k=min(per_analyst, len(items)))
        selection[(account_id, name)] = chosen
    return selection
  \<close>
\<close>

fun pick_loop :: "(nat \<Rightarrow> nat) \<Rightarrow> nat \<Rightarrow> groups \<Rightarrow> groups \<Rightarrow> int \<Rightarrow> error + groups" where
  "pick_loop rnd pos selection [] per_analyst = Inr selection"
| "pick_loop rnd pos selection ((key, items) # g) per_analyst =
     (case random_sample rnd pos items (min per_analyst (int (length items))) of
        Inl e \<Rightarrow> Inl e
      | Inr chosen \<Rightarrow>
          pick_loop rnd (pos + length chosen) (dict_set selection key chosen) g per_analyst)"

definition pick_random_per_analyst :: "(nat \<Rightarrow> nat) \<Rightarrow> groups \<Rightarrow> int \<Rightarrow> error + groups" where
  "pick_random_per_analyst rnd groups per_analyst = pick_loop rnd 0 [] groups per_analyst"

text \<open>What one entry of the selection is to the entry of the groups it was drawn from.\<close>

definition chosen_from :: "nat \<Rightarrow> owner \<times> json list \<Rightarrow> owner \<times> json list \<Rightarrow> bool" where
  "chosen_from n p q =
     (fst q = fst p \<and> mset (snd q) \<subseteq># mset (snd p) \<and> length (snd q) = min n (length (snd p)))"

section \<open>Strings and numbers\<close>

text \<open>The characters of the script's texts outside ASCII, in UTF-8.\<close>

definition a_acute :: string where
  "a_acute = [CHR 0xC3, CHR 0xA1]"

definition e_acute :: string where
  "e_acute = [CHR 0xC3, CHR 0xA9]"

definition i_acute :: string where
  "i_acute = [CHR 0xC3, CHR 0xAD]"

definition em_dash :: string where
  "em_dash = [CHR 0xE2, CHR 0x80, CHR 0x94]"

text \<open>
  \<^verbatim>\<open>len(s)\<close> and \<^verbatim>\<open>s[:n]\<close> count characters: every byte of the encoding but the
  continuation bytes \<^verbatim>\<open>0x80\<close> to \<^verbatim>\<open>0xBF\<close> starts one.
\<close>

definition is_continuation :: "char \<Rightarrow> bool" where
  "is_continuation c = (128 \<le> (of_char c :: nat) \<and> (of_char c :: nat) < 192)"

definition py_len :: "string \<Rightarrow> nat" where
  "py_len s = length (filter (\<lambda>c. \<not> is_continuation c) s)"

fun py_take :: "nat \<Rightarrow> string \<Rightarrow> string" where
  "py_take n [] = []"
| "py_take n (c # cs) =
     (if is_continuation c then c # py_take n cs
      else (case n of 0 \<Rightarrow> [] | Suc m \<Rightarrow> c # py_take m cs))"

text \<open>\<^verbatim>\<open>str(n)\<close> of an integer: its decimal digits.\<close>

fun str_of_nat :: "nat \<Rightarrow> string" where
  "str_of_nat n =
     (if n < 10 then [''0123456789'' ! n]
      else str_of_nat (n div 10) @ [''0123456789'' ! (n mod 10)])"

declare str_of_nat.simps [simp del]

definition str_of_int :: "int \<Rightarrow> string" where
  "str_of_int i = (if i < 0 then CHR ''-'' # str_of_nat (nat (- i)) else str_of_nat (nat i))"

text \<open>
  \<^verbatim>\<open>str(v)\<close>, which an f-string applies to a value it inserts. The text of a list or
  of a dict is Python's \<^verbatim>\<open>repr\<close> of it, a parameter \<open>repr\<close> here.
\<close>

fun py_str :: "(json \<Rightarrow> string) \<Rightarrow> json \<Rightarrow> string" where
  "py_str repr JNull = ''None''"
| "py_str repr (JBool b) = (if b then ''True'' else ''False'')"
| "py_str repr (JNum n) = str_of_int n"
| "py_str repr (JStr s) = s"
| "py_str repr v = repr v"

text \<open>
  \<^verbatim>\<open>datetime.date\<close> and its \<^verbatim>\<open>isoformat()\<close>, \<^verbatim>\<open>YYYY-MM-DD\<close> with leading zeros.
\<close>

record date =
  year :: nat
  month :: nat
  day :: nat

definition zfill :: "nat \<Rightarrow> string \<Rightarrow> string" where
  "zfill w s = replicate (w - length s) (CHR ''0'') @ s"

definition isoformat :: "date \<Rightarrow> string" where
  "isoformat d =
     zfill 4 (str_of_nat (year d)) @ ''-'' @ zfill 2 (str_of_nat (month d)) @ ''-'' @
     zfill 2 (str_of_nat (day d))"

text \<open>
  \<^verbatim>\<open>html.escape(s)\<close> of the standard library, with its default \<^verbatim>\<open>quote=True\<close>:
  \<^verbatim>\<open>
    s = s.replace("&", "&amp;") # Must be done first!
    s = s.replace("<", "&lt;")
    s = s.replace(">", "&gt;")
    if quote:
        s = s.replace('"', "&quot;")
        s = s.replace('\'', "&#x27;")
    return s
  \<close>
  On a value that is not a \<^verbatim>\<open>str\<close> the call of \<^verbatim>\<open>replace\<close> raises
  \<^verbatim>\<open>AttributeError\<close>.
\<close>

definition replace_char :: "char \<Rightarrow> string \<Rightarrow> string \<Rightarrow> string" where
  "replace_char c r s = concat (map (\<lambda>x. if x = c then r else [x]) s)"

definition escape :: "string \<Rightarrow> string" where
  "escape s =
     replace_char (CHR 0x27) ''&#x27;''
       (replace_char (CHR 0x22) ''&quot;''
          (replace_char (CHR ''>'') ''&gt;''
             (replace_char (CHR ''<'') ''&lt;''
                (replace_char (CHR ''&'') ''&amp;'' s))))"

fun py_escape :: "json \<Rightarrow> error + string" where
  "py_escape (JStr s) = Inr (escape s)"
| "py_escape _ = Inl AttributeError"

text \<open>
  A text is free of raw markup when it has none of \<^verbatim>\<open><\<close>, \<^verbatim>\<open>>\<close>, the two quotes, and
  every \<^verbatim>\<open>&\<close> in it starts one of the five character references \<^verbatim>\<open>html.escape\<close> writes.
\<close>

definition is_markup :: "char \<Rightarrow> bool" where
  "is_markup c = (c = CHR ''<'' \<or> c = CHR ''>'' \<or> c = CHR 0x22 \<or> c = CHR 0x27)"

definition reference_follows :: "string \<Rightarrow> bool" where
  "reference_follows cs =
     (take 4 cs = ''amp;'' \<or> take 3 cs = ''lt;'' \<or> take 3 cs = ''gt;'' \<or>
      take 5 cs = ''quot;'' \<or> take 5 cs = ''#x27;'')"

fun no_raw_markup :: "string \<Rightarrow> bool" where
  "no_raw_markup [] = True"
| "no_raw_markup (c # cs) =
     (\<not> is_markup c \<and> (if c = CHR ''&'' then reference_follows cs else True) \<and> no_raw_markup cs)"

text \<open>A computation that may raise, followed by one that uses its result.\<close>

definition bind_result :: "error + 'a \<Rightarrow> ('a \<Rightarrow> error + 'b) \<Rightarrow> error + 'b" where
  "bind_result m f = (case m of Inl e \<Rightarrow> Inl e | Inr x \<Rightarrow> f x)"

text \<open>A loop that collects one result per item and stops at the first exception.\<close>

fun map_result :: "('a \<Rightarrow> error + 'b) \<Rightarrow> 'a list \<Rightarrow> error + 'b list" where
  "map_result f [] = Inr []"
| "map_result f (x # xs) =
     (case f x of
        Inl e \<Rightarrow> Inl e
      | Inr y \<Rightarrow> (case map_result f xs of Inl e \<Rightarrow> Inl e | Inr ys \<Rightarrow> Inr (y # ys)))"

section \<open>Statistics\<close>

text \<open>
  \<^verbatim>\<open>
    def summarize_assignee_stats(issues):
        with_assignee = sum(1 for i in issues if i.get("fields", {}).get("assignee"))
        without_assignee = len(issues) - with_assignee
        print(f"[INFO] Con assignee: {with_assignee} | Sin assignee: {without_assignee}")
  \<close>
  A function that prints gives the lines it printed, one per call of \<^verbatim>\<open>print\<close>, and
  then the exception it raised or the value it returned; without a \<^verbatim>\<open>return\<close> that
  value is \<^verbatim>\<open>None\<close>.
\<close>

definition issue_assignee :: "json \<Rightarrow> error + json" where
  "issue_assignee i =
     bind_result (py_get i ''fields'' (JObj [])) (\<lambda>fields. py_get fields ''assignee'' JNull)"

fun count_with_assignee :: "json list \<Rightarrow> error + int" where
  "count_with_assignee [] = Inr 0"
| "count_with_assignee (i # issues) =
     (case issue_assignee i of
        Inl e \<Rightarrow> Inl e
      | Inr assignee \<Rightarrow>
          (case count_with_assignee issues of
             Inl e \<Rightarrow> Inl e
           | Inr n \<Rightarrow> Inr ((if truthy assignee then 1 else 0) + n)))"

definition stats_line :: "int \<Rightarrow> int \<Rightarrow> string" where
  "stats_line with_assignee without_assignee =
     ''[INFO] Con assignee: '' @ str_of_int with_assignee @ '' | Sin assignee: '' @
     str_of_int without_assignee"

definition summarize_assignee_stats :: "json list \<Rightarrow> string list \<times> (error + json)" where
  "summarize_assignee_stats issues =
     (case count_with_assignee issues of
        Inl e \<Rightarrow> ([], Inl e)
      | Inr with_assignee \<Rightarrow>
          (let without_assignee = int (length issues) - with_assignee
           in ([stats_line with_assignee without_assignee], Inr JNull)))"

text \<open>
  The records on which \<^verbatim>\<open>i.get("fields", {}).get("assignee")\<close> does not raise: objects
  whose \<^verbatim>\<open>fields\<close> entry, when there is one, is an object.
\<close>

fun fields_readable :: "json \<Rightarrow> bool" where
  "fields_readable (JObj kvs) =
     (case map_of kvs ''fields'' of None \<Rightarrow> True | Some (JObj fs) \<Rightarrow> True | Some _ \<Rightarrow> False)"
| "fields_readable _ = False"

text \<open>An issue counts as assigned when its assignee is there and true.\<close>

definition has_assignee :: "json \<Rightarrow> bool" where
  "has_assignee i = (case issue_assignee i of Inl e \<Rightarrow> False | Inr assignee \<Rightarrow> truthy assignee)"

section \<open>The HTML report\<close>

text \<open>
  An f-string is the list of its pieces: \<open>Lit\<close> the text between the braces, as the
  script has it; \<open>Param\<close> an inserted value that comes from the script or its
  configuration (a colour, the base URL, the date, a count); \<open>Data\<close> an inserted value
  that comes from the issue records (keys, summaries, display names). The string it denotes
  is the pieces' texts one after the other.
\<close>

datatype piece = Lit string | Param string | Data string

fun piece_text :: "piece \<Rightarrow> string" where
  "piece_text (Lit s) = s"
| "piece_text (Param s) = s"
| "piece_text (Data s) = s"

definition flatten :: "piece list \<Rightarrow> string" where
  "flatten ps = concat (map piece_text ps)"

text \<open>The colours of \<^verbatim>\<open>build_email_html\<close>.\<close>

definition bg :: string where
  "bg = ''#faf6fa''"

definition card_bg :: string where
  "card_bg = ''#ffffff''"

definition text_color :: string where
  "text_color = ''#0f172a''"

definition text_muted :: string where
  "text_muted = ''#334155''"

definition border :: string where
  "border = ''#eaeef2''"

definition border_soft :: string where
  "border_soft = ''#e5e7eb''"

definition link :: string where
  "link = ''#0b57d0''"

text \<open>\<^verbatim>\<open>preheader = f"Total de incidentes resueltos: {total_issues} - {date_str}"\<close>, the dash an em dash.\<close>

definition preheader_text :: "int \<Rightarrow> string \<Rightarrow> string" where
  "preheader_text total_issues date_str =
     ''Total de incidentes resueltos: '' @ str_of_int total_issues @ '' '' @ em_dash @ '' '' @ date_str"

text \<open>The document up to the blocks (lines 217 to 246 of the script).\<close>

definition html_open :: "string \<Rightarrow> string \<Rightarrow> int \<Rightarrow> piece list" where
  "html_open preheader date_str total_issues =
     [Lit (''        <!DOCTYPE html>\<newline>'' @
          ''        <html lang=\"es\">\<newline>'' @
          ''        <head>\<newline>'' @
          ''            <meta charset=\"UTF-8\" />\<newline>'' @
          ''            <meta name=\"x-apple-disable-message-reformatting\" />\<newline>'' @
          ''            <meta name=\"color-scheme\" content=\"light only\" />\<newline>'' @
          ''            <title>Auditor'' @ i_acute @ ''a de incidentes</title>\<newline>'' @
          ''        </head>\<newline>'' @
          ''        <body style=\"margin:0; padding:0; background-color:''),
      Param bg,
      Lit ('';\">\<newline>'' @
          ''            \<newline>'' @
          ''            \<newline>'' @
          ''            <!-- preheader (oculto) -->\<newline>'' @
          ''            <div style=\"display:none; overflow:hidden; line-height:1px; opacity:0; max-height:0; max-width:0; mso-hide:all;\">\<newline>'' @
          ''            ''),
      Param (escape preheader),
      Lit (''\<newline>'' @
          ''            </div>\<newline>'' @
          ''\<newline>'' @
          ''            <table role=\"presentation\" cellpadding=\"0\" cellspacing=\"0\" border=\"0\" width=\"100%\" style=\"background-color:''),
      Param bg,
      Lit ('';\">\<newline>'' @
          ''            <tr>\<newline>'' @
          ''                <td align=\"center\" style=\"padding:24px;\">\<newline>'' @
          ''                <table role=\"presentation\" cellpadding=\"0\" cellspacing=\"0\" border=\"0\" width=\"600\" style=\"width:600px; max-width:600px; background:''),
      Param card_bg,
      Lit (''; border:1px solid ''),
      Param border,
      Lit (''; border-radius:8px;\">\<newline>'' @
          ''                    <tr>\<newline>'' @
          ''                    <td style=\"padding:24px; font-family:-apple-system,Segoe UI,Roboto,Arial,Helvetica,sans-serif; color:''),
      Param text_color,
      Lit (''; font-size:14px; line-height:1.6;\">\<newline>'' @
          ''                        <h2 style=\"margin:0 0 8px 0; font-size:20px; line-height:1.3; color:''),
      Param text_color,
      Lit ('';\">\<newline>'' @
          ''                        Auditor'' @ i_acute @ ''a de incidentes resueltos el ''),
      Param (escape date_str),
      Lit (''\<newline>'' @
          ''                        </h2>\<newline>'' @
          ''                        <p style=\"margin:0 0 16px 0; color:''),
      Param text_muted,
      Lit ('';\">\<newline>'' @
          ''                        Total de incidentes resueltos: <strong style=\"color:''),
      Param text_color,
      Lit ('';\">''),
      Param (str_of_int total_issues),
      Lit (''</strong>\<newline>'' @
          ''                        </p>\<newline>'' @
          ''     '')]"

text \<open>The message for an empty selection (lines 250 to 254).\<close>

definition html_no_selection :: "piece list" where
  "html_no_selection =
     [Lit (''            <p style=\"margin:0; color:''),
      Param text_muted,
      Lit ('';\">\<newline>'' @
          ''            <em>No se encontraron incidentes con analista asignado. Es posible que los incidentes est'' @ e_acute @ ''n sin asignar o que el filtro no aplique.</em>\<newline>'' @
          ''            </p>\<newline>'' @
          ''        '')]"

text \<open>The head of an owner's block (lines 261 to 267).\<close>

definition html_block_open :: "string \<Rightarrow> nat \<Rightarrow> piece list" where
  "html_block_open safe_name count' =
     [Lit (''                <div style=\"margin:16px 0; padding:12px; border:1px solid ''),
      Param border_soft,
      Lit (''; border-radius:8px;\">\<newline>'' @
          ''                  <h3 style=\"margin:0 0 8px 0; font-size:16px; color:''),
      Param text_color,
      Lit ('';\">\<newline>'' @
          ''                    ''),
      Data safe_name,
      Lit ('' <span style=\"color:''),
      Param text_muted,
      Lit ('';\">(''),
      Param (str_of_nat count'),
      Lit ('')</span>\<newline>'' @
          ''                  </h3>\<newline>'' @
          ''                  <ol style=\"margin:0; padding-left:20px;\">\<newline>'' @
          ''          '')]"

text \<open>\<^verbatim>\<open>url = f"{base_url}/browse/{key}"\<close>, with the key already escaped.\<close>

definition issue_url :: "string \<Rightarrow> string \<Rightarrow> piece list" where
  "issue_url base_url key = [Param base_url, Lit ''/browse/'', Data key]"

text \<open>One issue of a block (lines 276 to 282).\<close>

definition html_item :: "piece list \<Rightarrow> string \<Rightarrow> string \<Rightarrow> string \<Rightarrow> piece list" where
  "html_item url key summary assignee_name =
     [Lit (''                    <li style=\"margin:0 0 6px 0;\">\<newline>'' @
          ''                      <a href=\"'')] @
     url @
     [Lit (''\" style=\"color:''),
      Param link,
      Lit (''; text-decoration:none;\">''),
      Data key,
      Lit (''</a>\<newline>'' @
          ''                      &nbsp;'' @ em_dash @ ''&nbsp;''),
      Data summary,
      Lit (''\<newline>'' @
          ''                      &nbsp;'' @ em_dash @ ''&nbsp;<strong style=\"color:''),
      Param text_color,
      Lit ('';\">''),
      Data assignee_name,
      Lit (''</strong>\<newline>'' @
          ''                    </li>\<newline>'' @
          ''             '')]"

text \<open>The end of a block (lines 283 to 286) and of the document (lines 289 to 302).\<close>

definition html_block_close :: "piece list" where
  "html_block_close =
     [Lit (''                  </ol>\<newline>'' @
          ''                </div>\<newline>'' @
          ''         '')]"

definition html_end :: "piece list" where
  "html_end =
     [Lit (''                <p style=\"margin:16px 0 0 0; color:''),
      Param text_muted,
      Lit (''; font-size:12px;\">\<newline>'' @
          ''                  Reporte generado autom'' @ a_acute @ ''ticamente. No responder a este correo.\<newline>'' @
          ''                </p>\<newline>'' @
          ''              </td>\<newline>'' @
          ''            </tr>\<newline>'' @
          ''          </table>\<newline>'' @
          ''          <div style=\"height:24px; line-height:24px;\">&nbsp;</div>\<newline>'' @
          ''        </td>\<newline>'' @
          ''      </tr>\<newline>'' @
          ''    </table>\<newline>'' @
          ''  </body>\<newline>'' @
          ''</html>\<newline>'')]"

text \<open>
  The body of the loop over the issues of a block:
  \<^verbatim>\<open>
    key = escape(issue.get("key", "(sin clave)"))
    fields = issue.get("fields", {}) or {}
    summary = escape(fields.get("summary", "(sin resumen)"))
    assignee = fields.get("assignee")
    assignee_name = escape((assignee or {}).get("displayName") or "(Sin asignar)")
    url = f"{base_url}/browse/{key}"
  \<close>
\<close>

definition html_issue :: "string \<Rightarrow> json \<Rightarrow> error + piece list" where
  "html_issue base_url issue =
     bind_result (py_get issue ''key'' (JStr ''(sin clave)'')) (\<lambda>k.
     bind_result (py_escape k) (\<lambda>key.
     bind_result (py_get issue ''fields'' (JObj [])) (\<lambda>f.
     let fields = py_or f (JObj []) in
     bind_result (py_get fields ''summary'' (JStr ''(sin resumen)'')) (\<lambda>s.
     bind_result (py_escape s) (\<lambda>summary.
     bind_result (py_get fields ''assignee'' JNull) (\<lambda>assignee.
     bind_result (py_get (py_or assignee (JObj [])) ''displayName'' JNull) (\<lambda>n.
     bind_result (py_escape (py_or n (JStr ''(Sin asignar)''))) (\<lambda>assignee_name.
     Inr (html_item (issue_url base_url key) key summary assignee_name)))))))))"

text \<open>
  The body of the loop over the owners:
  \<^verbatim>\<open>
    safe_name = escape(name or "(Sin asignar)")
    count = len(items)
  \<close>
  then the head of the block, its issues, its end.
\<close>

definition html_block :: "string \<Rightarrow> owner \<times> json list \<Rightarrow> error + piece list" where
  "html_block base_url kv =
     bind_result (py_escape (py_or (snd (fst kv)) (JStr ''(Sin asignar)''))) (\<lambda>safe_name.
     bind_result (map_result (html_issue base_url) (snd kv)) (\<lambda>lis.
     Inr (html_block_open safe_name (length (snd kv)) @ concat lis @ html_block_close)))"

text \<open>
  \<^verbatim>\<open>sorted(selection.items(), key=lambda kv: kv[0][1].lower())\<close>. \<^verbatim>\<open>sorted\<close> computes
  the key of every item first, and a name that is not a \<^verbatim>\<open>str\<close> has no \<^verbatim>\<open>lower\<close>;
  then it sorts the items by their keys, keeping items with equal keys in their order, as
  \<open>sort_key\<close> does. \<^verbatim>\<open>str.lower\<close> is the parameter \<open>lower\<close>.
\<close>

fun name_lower :: "(string \<Rightarrow> string) \<Rightarrow> owner \<times> json list \<Rightarrow> error + string" where
  "name_lower lower ((account_id, JStr name), items) = Inr (lower name)"
| "name_lower lower kv = Inl AttributeError"

definition sorted_by_name :: "(string \<Rightarrow> string) \<Rightarrow> groups \<Rightarrow> error + groups" where
  "sorted_by_name lower selection =
     bind_result (map_result (name_lower lower) selection) (\<lambda>keys.
     Inr (map snd (sort_key fst (zip keys selection))))"

text \<open>\<^verbatim>\<open>build_email_html\<close>: the pieces of the document, and the string it returns.\<close>

definition html_pieces ::
  "(string \<Rightarrow> string) \<Rightarrow> string \<Rightarrow> date \<Rightarrow> groups \<Rightarrow> int \<Rightarrow> error + piece list" where
  "html_pieces lower base_url target_date selection total_issues =
     (let date_str = isoformat target_date;
          preheader = preheader_text total_issues date_str
      in bind_result (sorted_by_name lower selection) (\<lambda>items.
         bind_result (map_result (html_block base_url) items) (\<lambda>blocks.
         Inr (html_open preheader date_str total_issues @
              (if selection = [] then html_no_selection else []) @
              concat blocks @ html_end))))"

definition build_email_html ::
  "(string \<Rightarrow> string) \<Rightarrow> string \<Rightarrow> date \<Rightarrow> groups \<Rightarrow> int \<Rightarrow> error + string" where
  "build_email_html lower base_url target_date selection total_issues =
     bind_result (html_pieces lower base_url target_date selection total_issues) (\<lambda>ps.
     Inr (flatten ps))"

section \<open>The console summary\<close>

text \<open>
  \<^verbatim>\<open>
    def _short(text: str, maxlen: int = 100) -> str:
        if text is None:
            return "(sin resumen)"
        text = str(text)
        return text if len(text) <= maxlen else text[: maxlen - 3] + "..."
  \<close>
\<close>

definition short :: "(json \<Rightarrow> string) \<Rightarrow> json \<Rightarrow> string" where
  "short repr v =
     (if v = JNull then ''(sin resumen)''
      else (let s = py_str repr v in if py_len s \<le> 100 then s else py_take 97 s @ ''...''))"

text \<open>
  The body of the loop over the issues of an owner, up to the line it prints:
  \<^verbatim>\<open>
    key = issue.get("key", "(sin clave)")
    fields = issue.get("fields", {}) or {}
    summary = _short(fields.get("summary"))
    assignee = fields.get("assignee")
    assignee_name = (assignee or {}).get("displayName") or "(Sin asignar)"
    url = f"{base_url}/browse/{key}"
    print(f"  - {key} - {summary} - Resp.: {assignee_name} - {url}")
  \<close>
  (the dashes are em dashes).
\<close>

definition console_issue :: "(json \<Rightarrow> string) \<Rightarrow> string \<Rightarrow> json \<Rightarrow> error + string" where
  "console_issue repr base_url issue =
     bind_result (py_get issue ''key'' (JStr ''(sin clave)'')) (\<lambda>key.
     bind_result (py_get issue ''fields'' (JObj [])) (\<lambda>f.
     let fields = py_or f (JObj []) in
     bind_result (py_get fields ''summary'' JNull) (\<lambda>s.
     let summary = short repr s in
     bind_result (py_get fields ''assignee'' JNull) (\<lambda>assignee.
     bind_result (py_get (py_or assignee (JObj [])) ''displayName'' JNull) (\<lambda>n.
     let assignee_name = py_or n (JStr ''(Sin asignar)'');
         url = base_url @ ''/browse/'' @ py_str repr key
     in Inr (''  - '' @ py_str repr key @ '' '' @ em_dash @ '' '' @ summary @ '' '' @ em_dash @
             '' Resp.: '' @ py_str repr assignee_name @ '' '' @ em_dash @ '' '' @ url))))))"

text \<open>
  The lines printed for a list of issues, until one raises; and for a list of owners,
  each with its heading \<^verbatim>\<open>print(f"\n{name} ({len(issues)}):")\<close>.
\<close>

fun console_issues ::
  "(json \<Rightarrow> string) \<Rightarrow> string \<Rightarrow> json list \<Rightarrow> string list \<times> error option" where
  "console_issues repr base_url [] = ([], None)"
| "console_issues repr base_url (issue # issues) =
     (case console_issue repr base_url issue of
        Inl e \<Rightarrow> ([], Some e)
      | Inr line \<Rightarrow>
          (case console_issues repr base_url issues of (out, r) \<Rightarrow> (line # out, r)))"

definition console_heading :: "(json \<Rightarrow> string) \<Rightarrow> owner \<times> json list \<Rightarrow> string" where
  "console_heading repr kv =
     ''\<newline>'' @ py_str repr (snd (fst kv)) @ '' ('' @ str_of_nat (length (snd kv)) @ ''):''"

fun console_blocks ::
  "(json \<Rightarrow> string) \<Rightarrow> string \<Rightarrow> groups \<Rightarrow> string list \<times> error option" where
  "console_blocks repr base_url [] = ([], None)"
| "console_blocks repr base_url (kv # kvs) =
     (case console_issues repr base_url (snd kv) of
        (out, Some e) \<Rightarrow> (console_heading repr kv # out, Some e)
      | (out, None) \<Rightarrow>
          (case console_blocks repr base_url kvs of
             (out', r) \<Rightarrow> (console_heading repr kv # out @ out', r)))"

text \<open>
  \<^verbatim>\<open>
    print("\n=== Resumen de auditoria (consola) ===")
    print(f"Total de issues resueltos: {total_issues}")
    if not selection:
        print("No se encontraron issues con analista asignado para el rango.")
        return
    for (account_id, name), issues in sorted(selection.items(), key=lambda kv: kv[0][1].lower()):
        ...
  \<close>
\<close>

definition console_title :: string where
  "console_title = ''\<newline>=== Resumen de auditor'' @ i_acute @ ''a (consola) ===''"

definition console_total :: "int \<Rightarrow> string" where
  "console_total total_issues = ''Total de issues resueltos: '' @ str_of_int total_issues"

definition console_no_selection :: string where
  "console_no_selection = ''No se encontraron issues con analista asignado para el rango.''"

definition print_console_summary ::
  "(string \<Rightarrow> string) \<Rightarrow> (json \<Rightarrow> string) \<Rightarrow> string \<Rightarrow> groups \<Rightarrow> int
     \<Rightarrow> string list \<times> (error + json)" where
  "print_console_summary lower repr base_url selection total_issues =
     (let out = [console_title, console_total total_issues]
      in if selection = [] then (out @ [console_no_selection], Inr JNull)
         else
           (case sorted_by_name lower selection of
              Inl e \<Rightarrow> (out, Inl e)
            | Inr items \<Rightarrow>
                (case console_blocks repr base_url items of
                   (out', Some e) \<Rightarrow> (out @ out', Inl e)
                 | (out', None) \<Rightarrow> (out @ out', Inr JNull))))"

section \<open>What the claims speak of\<close>

text \<open>
  The definitions of this section are not functions of the script: they name what the
  specification speaks of, to state the claims against the functions above.
\<close>

text \<open>
  The texts a document inserts from the issue records, in their order, and the texts of
  its templates.
\<close>

fun data_of :: "piece list \<Rightarrow> string list" where
  "data_of [] = []"
| "data_of (Data t # ps) = t # data_of ps"
| "data_of (p # ps) = data_of ps"

fun lits_of :: "piece list \<Rightarrow> string list" where
  "lits_of [] = []"
| "lits_of (Lit t # ps) = t # lits_of ps"
| "lits_of (p # ps) = lits_of ps"

definition template_lits :: "string list" where
  "template_lits =
     lits_of (html_open [] [] 0 @ html_no_selection @ html_block_open [] 0 @
              html_item (issue_url [] []) [] [] [] @ html_block_close @ html_end)"

text \<open>What \<open>escape\<close> writes for one character.\<close>

definition escape_char :: "char \<Rightarrow> string" where
  "escape_char c =
     (if c = CHR ''&'' then ''&amp;'' else if c = CHR ''<'' then ''&lt;''
      else if c = CHR ''>'' then ''&gt;'' else if c = CHR 0x22 then ''&quot;''
      else if c = CHR 0x27 then ''&#x27;'' else [c])"

text \<open>
  The fields of a record as the specification's data model has them: a key, a summary and
  the display name of the assignee, each a string that is there or not.
\<close>

definition record_key :: "json \<Rightarrow> string option" where
  "record_key i =
     (case i of JObj kvs \<Rightarrow> (case map_of kvs ''key'' of Some (JStr s) \<Rightarrow> Some s | _ \<Rightarrow> None)
      | _ \<Rightarrow> None)"

definition record_fields :: "json \<Rightarrow> (string \<times> json) list" where
  "record_fields i =
     (case i of JObj kvs \<Rightarrow> (case map_of kvs ''fields'' of Some (JObj fs) \<Rightarrow> fs | _ \<Rightarrow> [])
      | _ \<Rightarrow> [])"

definition record_summary :: "json \<Rightarrow> string option" where
  "record_summary i =
     (case map_of (record_fields i) ''summary'' of Some (JStr s) \<Rightarrow> Some s | _ \<Rightarrow> None)"

definition record_display_name :: "json \<Rightarrow> string option" where
  "record_display_name i =
     (case map_of (record_fields i) ''assignee'' of
        Some (JObj a) \<Rightarrow> (case map_of a ''displayName'' of Some (JStr s) \<Rightarrow> Some s | _ \<Rightarrow> None)
      | _ \<Rightarrow> None)"

text \<open>
  What a report shows for a record, with the fixed placeholder where the field is missing
  (an empty display name counts as missing); in the console the summary is cut to 100
  characters.
\<close>

definition shown_key :: "json \<Rightarrow> string" where
  "shown_key i = (case record_key i of None \<Rightarrow> ''(sin clave)'' | Some k \<Rightarrow> k)"

definition shown_summary :: "json \<Rightarrow> string" where
  "shown_summary i = (case record_summary i of None \<Rightarrow> ''(sin resumen)'' | Some s \<Rightarrow> s)"

definition shown_assignee :: "json \<Rightarrow> string" where
  "shown_assignee i =
     (case record_display_name i of None \<Rightarrow> ''(Sin asignar)''
      | Some n \<Rightarrow> if n = [] then ''(Sin asignar)'' else n)"

definition shown_short :: "json \<Rightarrow> string" where
  "shown_short i =
     (case record_summary i of
        None \<Rightarrow> ''(sin resumen)''
      | Some s \<Rightarrow> if py_len s \<le> 100 then s else py_take 97 s @ ''...'')"

definition console_line :: "string \<Rightarrow> json \<Rightarrow> string" where
  "console_line base_url i =
     ''  - '' @ shown_key i @ '' '' @ em_dash @ '' '' @ shown_short i @ '' '' @ em_dash @
     '' Resp.: '' @ shown_assignee i @ '' '' @ em_dash @ '' '' @ base_url @ ''/browse/'' @
     shown_key i"

text \<open>
  The display name of an owner of the selection, what a block's heading shows for it, and
  the name under which the grouper files a record: the sentinel name without an assignee,
  the placeholder name for an assignee without display name.
\<close>

definition owner_name :: "owner \<times> json list \<Rightarrow> string" where
  "owner_name kv = (case snd (fst kv) of JStr n \<Rightarrow> n | _ \<Rightarrow> [])"

definition shown_owner :: "owner \<times> json list \<Rightarrow> string" where
  "shown_owner kv = (if owner_name kv = [] then ''(Sin asignar)'' else owner_name kv)"

definition grouped_name :: "json \<Rightarrow> string" where
  "grouped_name i =
     (case map_of (record_fields i) ''assignee'' of
        Some (JObj a) \<Rightarrow>
          if a = [] then ''(Sin asignar)''
          else (case map_of a ''displayName'' of Some (JStr n) \<Rightarrow> n | _ \<Rightarrow> ''Desconocido'')
      | _ \<Rightarrow> ''(Sin asignar)'')"

text \<open>
  The texts from the records that the block of an owner holds: the owner's name, then for
  every issue its key (in the link and as the link's text), its summary and its assignee's
  name, each escaped.
\<close>

definition issue_data :: "json \<Rightarrow> string list" where
  "issue_data i =
     [escape (shown_key i), escape (shown_key i), escape (shown_summary i),
      escape (shown_assignee i)]"

definition block_data :: "owner \<times> json list \<Rightarrow> string list" where
  "block_data kv = escape (shown_owner kv) # concat (map issue_data (snd kv))"

text \<open>
  Partial records: an object whose key and summary are strings or missing, whose
  \<^verbatim>\<open>fields\<close> is an object or missing, and whose assignee is missing, \<^verbatim>\<open>null\<close>, or an
  object with an account identifier (any hashable value) and a display name that is a
  string or missing.
\<close>

fun absent_or_str :: "json option \<Rightarrow> bool" where
  "absent_or_str None = True"
| "absent_or_str (Some (JStr s)) = True"
| "absent_or_str (Some _) = False"

fun assignee_tolerated :: "json option \<Rightarrow> bool" where
  "assignee_tolerated None = True"
| "assignee_tolerated (Some JNull) = True"
| "assignee_tolerated (Some (JObj a)) =
     ((case map_of a ''accountId'' of None \<Rightarrow> False | Some v \<Rightarrow> hashable v) \<and>
      absent_or_str (map_of a ''displayName''))"
| "assignee_tolerated (Some _) = False"

fun fields_tolerated :: "json option \<Rightarrow> bool" where
  "fields_tolerated None = True"
| "fields_tolerated (Some (JObj fs)) =
     (absent_or_str (map_of fs ''summary'') \<and> assignee_tolerated (map_of fs ''assignee''))"
| "fields_tolerated (Some _) = False"

fun tolerated_record :: "json \<Rightarrow> bool" where
  "tolerated_record (JObj kvs) =
     (absent_or_str (map_of kvs ''key'') \<and> fields_tolerated (map_of kvs ''fields''))"
| "tolerated_record _ = False"

section \<open>Example records\<close>

text \<open>
  Records as the tracker's search returns them: two issues of Ana, an issue without
  assignee, an issue whose assignee has no display name (and that has neither key nor
  summary), and an issue whose assignee object has no account identifier.
\<close>

definition ex_ana :: json where
  "ex_ana =
     JObj [(''key'', JStr ''INC-1''),
           (''fields'', JObj [(''summary'', JStr ''Router <down> & out''),
                              (''assignee'', JObj [(''accountId'', JStr ''A1''),
                                                   (''displayName'', JStr ''Ana'')])])]"

definition ex_ana2 :: json where
  "ex_ana2 =
     JObj [(''key'', JStr ''INC-4''),
           (''fields'', JObj [(''summary'', JStr ''Password reset''),
                              (''assignee'', JObj [(''accountId'', JStr ''A1''),
                                                   (''displayName'', JStr ''Ana'')])])]"

definition ex_free :: json where
  "ex_free =
     JObj [(''key'', JStr ''INC-2''),
           (''fields'', JObj [(''summary'', JStr ''Printer''), (''assignee'', JNull)])]"

definition ex_anon :: json where
  "ex_anon = JObj [(''fields'', JObj [(''assignee'', JObj [(''accountId'', JStr ''A1'')])])]"

definition ex_partial :: json where
  "ex_partial =
     JObj [(''key'', JStr ''INC-9''),
           (''fields'', JObj [(''summary'', JStr ''Badge''),
                              (''assignee'', JObj [(''displayName'', JStr ''Ana'')])])]"

definition key_ana :: owner where
  "key_ana = (JStr ''A1'', JStr ''Ana'')"

definition key_free :: owner where
  "key_free = (JStr ''UNASSIGNED'', JStr ''(Sin asignar)'')"

definition key_anon :: owner where
  "key_anon = (JStr ''A1'', JStr ''Desconocido'')"

text \<open>A lower-casing of the ASCII letters, to run the renderers on the examples.\<close>

definition ascii_lower :: "string \<Rightarrow> string" where
  "ascii_lower s =
     map (\<lambda>c. case map_of (zip ''ABCDEFGHIJKLMNOPQRSTUVWXYZ'' ''abcdefghijklmnopqrstuvwxyz'') c of
               None \<Rightarrow> c | Some l \<Rightarrow> l) s"

text \<open>A selection of two owners, and the report and the console lines it gives.\<close>

definition ex_base :: string where
  "ex_base = ''https://jira.example''"

definition ex_date :: date where
  "ex_date = \<lparr>year = 2024, month = 3, day = 9\<rparr>"

definition ex_selection :: groups where
  "ex_selection = [(key_ana, [ex_ana]), (key_free, [ex_free])]"

definition ex_html :: string where
  "ex_html =
     flatten (html_open (preheader_text 2 ''2024-03-09'') ''2024-03-09'' 2 @
              (html_block_open ''(Sin asignar)'' 1 @
               html_item (issue_url ex_base ''INC-2'') ''INC-2'' ''Printer'' ''(Sin asignar)'' @
               html_block_close) @
              (html_block_open ''Ana'' 1 @
               html_item (issue_url ex_base ''INC-1'') ''INC-1''
                 ''Router &lt;down&gt; &amp; out'' ''Ana'' @
               html_block_close) @
              html_end)"

definition ex_console :: "string list" where
  "ex_console =
     [console_title, ''Total de issues resueltos: 2'',
      ''\<newline>(Sin asignar) (1):'',
      ''  - INC-2 '' @ em_dash @ '' Printer '' @ em_dash @ '' Resp.: (Sin asignar) '' @ em_dash @
      '' https://jira.example/browse/INC-2'',
      ''\<newline>Ana (1):'',
      ''  - INC-1 '' @ em_dash @ '' Router <down> & out '' @ em_dash @ '' Resp.: Ana '' @ em_dash @
      '' https://jira.example/browse/INC-1'']"

section \<open>Facts about the dict operations\<close>

lemma py_eq_refl: "py_eq a a"
  by (simp add: py_eq_def)

lemma py_eq_sym: "py_eq a b \<Longrightarrow> py_eq b a"
  by (simp add: py_eq_def)

lemma py_eq_trans: "py_eq a b \<Longrightarrow> py_eq b c \<Longrightarrow> py_eq a c"
  by (simp add: py_eq_def)

lemma owner_eq_refl: "owner_eq k k"
  by (simp add: owner_eq_def py_eq_refl)

lemma owner_eq_sym: "owner_eq k k' \<Longrightarrow> owner_eq k' k"
  by (simp add: owner_eq_def py_eq_sym)

lemma owner_eq_trans: "owner_eq a b \<Longrightarrow> owner_eq b c \<Longrightarrow> owner_eq a c"
  unfolding owner_eq_def by (blast intro: py_eq_trans)

lemma owner_eq_left: "owner_eq a b \<Longrightarrow> owner_eq a c = owner_eq b c"
  by (blast intro: owner_eq_trans owner_eq_sym)

lemma owner_eq_right: "owner_eq a b \<Longrightarrow> owner_eq c a = owner_eq c b"
  by (blast intro: owner_eq_trans owner_eq_sym)

lemma dict_lookup_cong: "owner_eq k k' \<Longrightarrow> dict_lookup g k = dict_lookup g k'"
  by (induction g) (auto simp: owner_eq_right)

lemma mset_setdefault_append:
  "mset (concat (map snd (setdefault_append g k issue))) = add_mset issue (mset (concat (map snd g)))"
  by (induction g) auto

lemma lookup_setdefault_append:
  "dict_lookup (setdefault_append g k issue) k' =
     (if owner_eq k k' then Some ((case dict_lookup g k of None \<Rightarrow> [] | Some items \<Rightarrow> items) @ [issue])
      else dict_lookup g k')"
proof (induction g)
  case Nil
  show ?case by simp
next
  case (Cons p g)
  obtain k0 items where p: "p = (k0, items)" by (cases p)
  show ?case
  proof (cases "owner_eq k0 k")
    case True
    then show ?thesis using p by (auto simp: owner_eq_left)
  next
    case False
    then have "owner_eq k k' \<Longrightarrow> \<not> owner_eq k0 k'"
      by (blast intro: owner_eq_trans owner_eq_sym)
    with False show ?thesis using p Cons.IH by auto
  qed
qed

lemma is_dict_setdefault_append:
  "is_dict g \<Longrightarrow> owner_hashable k \<Longrightarrow> is_dict (setdefault_append g k issue)"
proof (induction g)
  case Nil
  then show ?case by simp
next
  case (Cons p g)
  obtain k0 items where p: "p = (k0, items)" by (cases p)
  from Cons.prems p have k0: "owner_hashable k0" "dict_lookup g k0 = None" "is_dict g"
    by simp_all
  show ?case
  proof (cases "owner_eq k0 k")
    case True
    then show ?thesis using p k0 by simp
  next
    case False
    then have "\<not> owner_eq k k0" by (blast intro: owner_eq_sym)
    then have "dict_lookup (setdefault_append g k issue) k0 = None"
      using k0 by (simp add: lookup_setdefault_append)
    then show ?thesis using False p k0 Cons.IH Cons.prems(2) by simp
  qed
qed

lemma dict_lookup_mem: "(k, items) \<in> set g \<Longrightarrow> is_dict g \<Longrightarrow> dict_lookup g k = Some items"
proof (induction g)
  case Nil
  then show ?case by simp
next
  case (Cons p g)
  obtain k0 items0 where p: "p = (k0, items0)" by (cases p)
  show ?case
  proof (cases "(k, items) = p")
    case True
    then show ?thesis using p by (simp add: owner_eq_refl)
  next
    case False
    with Cons.prems p have mem: "(k, items) \<in> set g" and d: "is_dict g" by auto
    then have look: "dict_lookup g k = Some items" by (rule Cons.IH)
    have "\<not> owner_eq k0 k"
    proof
      assume "owner_eq k0 k"
      then have "dict_lookup g k0 = dict_lookup g k" by (rule dict_lookup_cong)
      with look Cons.prems(2) p show False by simp
    qed
    then show ?thesis using p look by simp
  qed
qed

section \<open>Facts about the grouping loop\<close>

lemma group_loop_mset:
  "group_loop g issues = Inr g' \<Longrightarrow>
     mset (concat (map snd g')) = mset (concat (map snd g)) + mset issues"
proof (induction issues arbitrary: g)
  case Nil
  then show ?case by simp
next
  case (Cons issue issues)
  from Cons.prems obtain k where k: "group_key issue = Inr k" "owner_hashable k"
    and rest: "group_loop (setdefault_append g k issue) issues = Inr g'"
    by (auto split: sum.splits if_splits)
  from Cons.IH [OF rest] show ?case by (simp add: mset_setdefault_append)
qed

lemma group_loop_lookup:
  "group_loop g issues = Inr g' \<Longrightarrow>
     dict_lookup g' k =
       (if dict_lookup g k = None \<and> issues_of k issues = [] then None
        else Some ((case dict_lookup g k of None \<Rightarrow> [] | Some items \<Rightarrow> items) @ issues_of k issues))"
proof (induction issues arbitrary: g)
  case Nil
  then show ?case by (auto simp: issues_of_def split: option.splits)
next
  case (Cons issue issues)
  from Cons.prems obtain k0 where k0: "group_key issue = Inr k0" "owner_hashable k0"
    and rest: "group_loop (setdefault_append g k0 issue) issues = Inr g'"
    by (auto split: sum.splits if_splits)
  have hk: "has_key k issue = owner_eq k0 k"
    by (simp add: has_key_def k0)
  show ?case
  proof (cases "owner_eq k0 k")
    case True
    then have "dict_lookup g k0 = dict_lookup g k" by (rule dict_lookup_cong)
    with True show ?thesis
      unfolding Cons.IH [OF rest]
      by (auto simp: lookup_setdefault_append issues_of_def hk split: option.splits)
  next
    case False
    then show ?thesis
      unfolding Cons.IH [OF rest]
      by (auto simp: lookup_setdefault_append issues_of_def hk split: option.splits)
  qed
qed

lemma group_loop_is_dict:
  "group_loop g issues = Inr g' \<Longrightarrow> is_dict g \<Longrightarrow> is_dict g'"
proof (induction issues arbitrary: g)
  case Nil
  then show ?case by simp
next
  case (Cons issue issues)
  from Cons.prems obtain k where k: "group_key issue = Inr k" "owner_hashable k"
    and rest: "group_loop (setdefault_append g k issue) issues = Inr g'"
    by (auto split: sum.splits if_splits)
  from Cons.prems(2) k(2) have "is_dict (setdefault_append g k issue)"
    by (rule is_dict_setdefault_append)
  with rest show ?case by (rule Cons.IH)
qed

lemma group_by_assignee_bucket:
  assumes "group_by_assignee issues = Inr g" and "(k, items) \<in> set g"
  shows "items = issues_of k issues" and "items \<noteq> []"
proof -
  from assms(1) have loop: "group_loop [] issues = Inr g"
    by (simp add: group_by_assignee_def)
  then have "is_dict g" by (rule group_loop_is_dict) simp
  with assms(2) have "dict_lookup g k = Some items" by (rule dict_lookup_mem)
  with group_loop_lookup [OF loop, of k] show "items = issues_of k issues" and "items \<noteq> []"
    by (auto split: if_splits)
qed

section \<open>Facts about the sampler\<close>

lemma take_update_last:
  assumes "j < m" "m \<le> length pool"
  shows "add_mset (pool ! j) (mset (take (m - 1) (pool[j := pool ! (m - 1)]))) = mset (take m pool)"
proof -
  from assms obtain m' where m: "m = Suc m'" by (cases m) auto
  with assms have m': "m' < length pool" by simp
  have tk: "take m pool = take m' pool @ [pool ! m']"
    using m m' by (simp add: take_Suc_conv_app_nth)
  show ?thesis
  proof (cases "j = m'")
    case True
    then show ?thesis using tk m by simp
  next
    case False
    with assms m have j: "j < m'" by simp
    then have jl: "j < length (take m' pool)" using m' by simp
    have "take m' (pool[j := pool ! m']) = (take m' pool)[j := pool ! m']"
      by (simp add: take_update_swap)
    then have "mset (take m' (pool[j := pool ! m'])) =
        add_mset (pool ! m') (mset (take m' pool) - {#take m' pool ! j#})"
      using jl by (simp add: mset_update)
    moreover have "take m' pool ! j = pool ! j" using j by simp
    moreover have "pool ! j \<in># mset (take m' pool)"
      using jl \<open>take m' pool ! j = pool ! j\<close> by (metis nth_mem set_mset_mset)
    ultimately show ?thesis using tk m by simp
  qed
qed

lemma sample_pool_mset:
  "r \<le> m \<Longrightarrow> m \<le> length pool \<Longrightarrow> mset (sample_pool rnd pos pool m r) \<subseteq># mset (take m pool)"
proof (induction r arbitrary: pos pool m)
  case 0
  then show ?case by simp
next
  case (Suc r)
  let ?j = "rnd pos mod m"
  let ?pool = "pool[?j := pool ! (m - 1)]"
  from Suc.prems have m: "0 < m" by simp
  then have j: "?j < m" by simp
  from Suc.prems have "r \<le> m - 1" "m - 1 \<le> length ?pool" by simp_all
  then have "mset (sample_pool rnd (Suc pos) ?pool (m - 1) r) \<subseteq># mset (take (m - 1) ?pool)"
    by (rule Suc.IH)
  then have "add_mset (pool ! ?j) (mset (sample_pool rnd (Suc pos) ?pool (m - 1) r))
      \<subseteq># add_mset (pool ! ?j) (mset (take (m - 1) ?pool))"
    by simp
  also have "\<dots> = mset (take m pool)"
    using j Suc.prems(2) by (rule take_update_last)
  finally show ?case by (simp add: Let_def)
qed

lemma sample_pool_length: "length (sample_pool rnd pos pool m r) = r"
  by (induction r arbitrary: pos pool m) (simp_all add: Let_def)

lemma random_sample_ok:
  assumes "0 \<le> k"
  shows "\<exists>chosen. random_sample rnd pos items (min k (int (length items))) = Inr chosen \<and>
           mset chosen \<subseteq># mset items \<and> length chosen = min (nat k) (length items)"
proof -
  let ?k = "min k (int (length items))"
  have "nat ?k \<le> length items" by simp
  then have "mset (sample_pool rnd pos items (length items) (nat ?k)) \<subseteq># mset (take (length items) items)"
    by (rule sample_pool_mset) simp
  moreover have "nat ?k = min (nat k) (length items)" using assms by linarith
  ultimately show ?thesis using assms
    by (simp add: random_sample_def sample_pool_length)
qed

lemma dict_lookup_None:
  "dict_lookup g k = None \<longleftrightarrow> (\<forall>k' \<in> set (map fst g). \<not> owner_eq k' k)"
  by (induction g) (auto split: if_splits)

lemma dict_lookup_append:
  "dict_lookup (a @ b) k = (case dict_lookup a k of None \<Rightarrow> dict_lookup b k | Some v \<Rightarrow> Some v)"
  by (induction a) auto

lemma dict_set_new: "dict_lookup sel k = None \<Longrightarrow> dict_set sel k v = sel @ [(k, v)]"
  by (induction sel) (auto split: if_splits)

lemma is_dict_keys: "map fst a = map fst b \<Longrightarrow> is_dict a = is_dict b"
proof (induction a arbitrary: b)
  case Nil
  then show ?case by simp
next
  case (Cons p a)
  then obtain q b' where b: "b = q # b'" "fst p = fst q" "map fst a = map fst b'"
    by (cases b) auto
  have "dict_lookup a (fst p) = None \<longleftrightarrow> dict_lookup b' (fst p) = None"
    unfolding dict_lookup_None b(3) ..
  with Cons.IH [OF b(3)] b show ?case
    by (cases p; cases q) auto
qed

lemma pick_loop_chosen:
  assumes "0 \<le> k"
  shows "is_dict g \<Longrightarrow> \<forall>p \<in> set g. dict_lookup sel (fst p) = None \<Longrightarrow>
         \<exists>chosen. pick_loop rnd pos sel g k = Inr (sel @ chosen) \<and>
                  list_all2 (chosen_from (nat k)) g chosen"
proof (induction g arbitrary: pos sel)
  case Nil
  then show ?case by simp
next
  case (Cons p g)
  obtain key items where p: "p = (key, items)" by (cases p)
  from random_sample_ok [OF assms, of rnd pos items]
  obtain c where c: "random_sample rnd pos items (min k (int (length items))) = Inr c"
    "mset c \<subseteq># mset items" "length c = min (nat k) (length items)"
    by blast
  from Cons.prems p have new: "dict_lookup sel key = None" by simp
  then have set: "dict_set sel key c = sel @ [(key, c)]" by (rule dict_set_new)
  from Cons.prems(1) p have g: "is_dict g" and fresh: "dict_lookup g key = None" by simp_all
  have "\<forall>q \<in> set g. dict_lookup (sel @ [(key, c)]) (fst q) = None"
  proof
    fix q assume q: "q \<in> set g"
    with Cons.prems(2) have "dict_lookup sel (fst q) = None" by simp
    moreover from fresh q have "\<not> owner_eq (fst q) key" by (simp add: dict_lookup_None)
    then have "\<not> owner_eq key (fst q)" by (blast intro: owner_eq_sym)
    ultimately show "dict_lookup (sel @ [(key, c)]) (fst q) = None"
      by (simp add: dict_lookup_append)
  qed
  from Cons.IH [OF g this, of "pos + length c"]
  obtain chosen where rest: "pick_loop rnd (pos + length c) (sel @ [(key, c)]) g k = Inr ((sel @ [(key, c)]) @ chosen)"
    and all: "list_all2 (chosen_from (nat k)) g chosen"
    by blast
  have "pick_loop rnd pos sel (p # g) k = Inr (sel @ (key, c) # chosen)"
    using p c(1) set rest by simp
  moreover have "list_all2 (chosen_from (nat k)) (p # g) ((key, c) # chosen)"
    using all c p by (simp add: chosen_from_def)
  ultimately show ?case by blast
qed

lemma list_all2_chosen_keys: "list_all2 (chosen_from n) g sel \<Longrightarrow> map fst sel = map fst g"
  by (induction g sel rule: list_all2_induct) (simp_all add: chosen_from_def)

lemma list_all2_chosen_mem:
  "list_all2 (chosen_from n) g sel \<Longrightarrow> p \<in> set g \<Longrightarrow> \<exists>q \<in> set sel. chosen_from n p q"
  by (induction g sel rule: list_all2_induct) auto

lemma list_all2_chosen_mem_rev:
  "list_all2 (chosen_from n) g sel \<Longrightarrow> q \<in> set sel \<Longrightarrow> \<exists>p \<in> set g. chosen_from n p q"
  by (induction g sel rule: list_all2_induct) auto

lemma list_all2_chosen_zero:
  "list_all2 (chosen_from 0) g sel \<Longrightarrow> sel = map (\<lambda>(key, items). (key, [])) g"
  by (induction g sel rule: list_all2_induct) (auto simp: chosen_from_def)

lemma pick_random_per_analyst_chosen:
  assumes "is_dict groups" and "0 \<le> k"
  shows "\<exists>selection. pick_random_per_analyst rnd groups k = Inr selection \<and>
           list_all2 (chosen_from (nat k)) groups selection \<and> is_dict selection"
proof -
  from pick_loop_chosen [OF assms(2) assms(1), of "[]" rnd 0]
  obtain sel where sel: "pick_random_per_analyst rnd groups k = Inr sel"
    and all: "list_all2 (chosen_from (nat k)) groups sel"
    by (auto simp: pick_random_per_analyst_def)
  from all have keys: "map fst sel = map fst groups" by (rule list_all2_chosen_keys)
  from is_dict_keys [OF keys] assms(1) have d: "is_dict sel" by simp
  with sel all show ?thesis by blast
qed

lemma chosen_lookup:
  assumes all: "list_all2 (chosen_from n) groups sel" and d: "is_dict sel"
    and mem: "(key, items) \<in> set groups"
  shows "\<exists>chosen. dict_lookup sel key = Some chosen \<and> mset chosen \<subseteq># mset items \<and>
           length chosen = min n (length items)"
proof -
  from list_all2_chosen_mem [OF all mem]
  obtain q where q: "q \<in> set sel" "chosen_from n (key, items) q" by blast
  then have "(key, snd q) \<in> set sel" by (cases q) (auto simp: chosen_from_def)
  then have "dict_lookup sel key = Some (snd q)" using d by (rule dict_lookup_mem)
  with q(2) show ?thesis by (simp add: chosen_from_def)
qed

lemma mset_subseteq_same_size:
  assumes "A \<subseteq># B" and "size B = size A"
  shows "A = B"
proof (rule ccontr)
  assume "A \<noteq> B"
  with assms(1) have "A \<subset># B" by (simp add: subset_mset.less_le)
  then have "size A < size B" by (rule mset_subset_size)
  with assms(2) show False by simp
qed

lemma pick_loop_negative:
  "k < 0 \<Longrightarrow> g \<noteq> [] \<Longrightarrow> pick_loop rnd pos sel g k = Inl ValueError"
  by (cases g) (auto simp: random_sample_def)

section \<open>Facts about the statistics and the texts\<close>

lemma issue_assignee_readable: "fields_readable i \<Longrightarrow> \<exists>a. issue_assignee i = Inr a"
  by (cases i) (auto simp: issue_assignee_def bind_result_def split: option.splits json.splits)

lemma count_with_assignee_readable:
  "\<forall>i \<in> set issues. fields_readable i \<Longrightarrow>
     count_with_assignee issues = Inr (int (length (filter has_assignee issues)))"
proof (induction issues)
  case Nil
  show ?case by simp
next
  case (Cons i issues)
  then have "fields_readable i" by simp
  then obtain a where a: "issue_assignee i = Inr a" using issue_assignee_readable by blast
  with Cons show ?case by (simp add: has_assignee_def)
qed

lemma length_filter_split:
  "int (length (filter P xs)) + int (length (filter (\<lambda>x. \<not> P x) xs)) = int (length xs)"
  using sum_length_filter_compl [of P xs] by linarith

lemma str_of_int_digit: "str_of_int 0 = ''0''" "str_of_int 1 = ''1''" "str_of_int 2 = ''2''"
  "str_of_int 3 = ''3''"
  by (simp_all add: str_of_int_def str_of_nat.simps)

lemma flatten_append: "flatten (ps @ qs) = flatten ps @ flatten qs"
  by (simp add: flatten_def)

lemma html_no_selection_text:
  "flatten html_no_selection =
     ''            <p style=\"margin:0; color:#334155;\">\<newline>'' @
     ''            <em>No se encontraron incidentes con analista asignado. Es posible que los incidentes est'' @ e_acute @ ''n sin asignar o que el filtro no aplique.</em>\<newline>'' @
     ''            </p>\<newline>'' @
     ''        ''"
  by (simp add: flatten_def html_no_selection_def text_muted_def)

section \<open>Facts about escaping and the HTML report\<close>

lemma replace_char_append:
  "replace_char c r (a @ b) = replace_char c r a @ replace_char c r b"
  by (simp add: replace_char_def)

lemma escape_append: "escape (a @ b) = escape a @ escape b"
  by (simp add: escape_def replace_char_append)

lemma escape_single: "escape [c] = escape_char c"
  by (simp add: escape_def replace_char_def escape_char_def)

lemma escape_Cons: "escape (c # s) = escape_char c @ escape s"
  using escape_append [of "[c]" s] by (simp add: escape_single)

lemma escape_Nil: "escape [] = []"
  by (simp add: escape_def replace_char_def)

lemma escape_chars: "escape s = concat (map escape_char s)"
  by (induction s) (simp_all add: escape_Nil escape_Cons)

lemma no_raw_markup_escape_char:
  "no_raw_markup t \<Longrightarrow> no_raw_markup (escape_char c @ t)"
  by (simp add: escape_char_def is_markup_def reference_follows_def)

lemma no_raw_markup_escape: "no_raw_markup (escape s)"
  by (induction s) (simp_all add: escape_Nil escape_Cons no_raw_markup_escape_char)

lemma data_of_append: "data_of (ps @ qs) = data_of ps @ data_of qs"
  by (induction ps rule: data_of.induct) simp_all

lemma lits_of_append: "lits_of (ps @ qs) = lits_of ps @ lits_of qs"
  by (induction ps rule: lits_of.induct) simp_all

lemma data_of_concat: "data_of (concat pss) = concat (map data_of pss)"
  by (induction pss) (simp_all add: data_of_append)

lemma lits_of_concat: "lits_of (concat pss) = concat (map lits_of pss)"
  by (induction pss) (simp_all add: lits_of_append)

lemma bind_result_Inr: "bind_result m f = Inr y \<longleftrightarrow> (\<exists>x. m = Inr x \<and> f x = Inr y)"
  by (cases m) (simp_all add: bind_result_def)

lemma py_escape_Inr: "py_escape v = Inr t \<longleftrightarrow> (\<exists>s. v = JStr s \<and> t = escape s)"
  by (cases v) auto

lemma py_get_Inr: "py_get v k d = Inr x \<longleftrightarrow> (\<exists>kvs. v = JObj kvs \<and> x = (case map_of kvs k of None \<Rightarrow> d | Some y \<Rightarrow> y))"
  by (cases v) auto

lemma html_open_data: "data_of (html_open p d n) = []"
  by (simp add: html_open_def)

lemma html_fixed_data:
  "data_of html_no_selection = []" "data_of html_block_close = []" "data_of html_end = []"
  by (simp_all add: html_no_selection_def html_block_close_def html_end_def)

lemma html_block_open_data: "data_of (html_block_open name c) = [name]"
  by (simp add: html_block_open_def)

lemma html_item_data:
  "data_of (html_item (issue_url base key) key summary name) = [key, key, summary, name]"
  by (simp add: html_item_def issue_url_def)

lemma html_open_lits: "set (lits_of (html_open p d n)) \<subseteq> set template_lits"
proof -
  have "lits_of (html_open p d n) = lits_of (html_open [] [] 0)"
    by (simp add: html_open_def)
  then show ?thesis by (simp add: template_lits_def lits_of_append)
qed

lemma html_fixed_lits:
  "set (lits_of html_no_selection) \<subseteq> set template_lits"
  "set (lits_of html_block_close) \<subseteq> set template_lits"
  "set (lits_of html_end) \<subseteq> set template_lits"
  by (auto simp: template_lits_def lits_of_append)

lemma html_block_open_lits: "set (lits_of (html_block_open name c)) \<subseteq> set template_lits"
proof -
  have "lits_of (html_block_open name c) = lits_of (html_block_open [] 0)"
    by (simp add: html_block_open_def)
  then show ?thesis by (auto simp: template_lits_def lits_of_append)
qed

lemma html_item_lits:
  "set (lits_of (html_item (issue_url base key) key summary name)) \<subseteq> set template_lits"
proof -
  have "lits_of (html_item (issue_url base key) key summary name) =
      lits_of (html_item (issue_url [] []) [] [] [])"
    by (simp add: html_item_def issue_url_def)
  then show ?thesis by (auto simp: template_lits_def lits_of_append)
qed

lemma bind_resultE:
  assumes "bind_result m f = Inr y"
  obtains x where "m = Inr x" and "f x = Inr y"
  using assms by (auto simp: bind_result_Inr)

lemma record_fields_get:
  assumes "py_get i ''fields'' (JObj []) = Inr f" and "py_or f (JObj []) = JObj fs"
  shows "map_of (record_fields i) = map_of fs"
proof -
  from assms(1) obtain kvs where i: "i = JObj kvs"
    and f: "f = (case map_of kvs ''fields'' of None \<Rightarrow> JObj [] | Some y \<Rightarrow> y)"
    by (auto simp: py_get_Inr)
  show ?thesis
  proof (cases "map_of kvs ''fields''")
    case None
    with i f assms(2) show ?thesis by (simp add: record_fields_def py_or_def)
  next
    case (Some y)
    with f have fy: "f = y" by simp
    show ?thesis
    proof (cases "truthy y")
      case True
      with assms(2) fy have "y = JObj fs" by (simp add: py_or_def)
      with i Some show ?thesis by (simp add: record_fields_def)
    next
      case False
      with assms(2) fy have fs: "fs = []" by (simp add: py_or_def)
      from False have "record_fields i = []"
        using i Some by (cases y) (simp_all add: record_fields_def)
      with fs show ?thesis by simp
    qed
  qed
qed

lemma shown_key_get:
  assumes "py_get i ''key'' (JStr ''(sin clave)'') = Inr k" and "py_escape k = Inr key"
  shows "key = escape (shown_key i)"
proof -
  from assms(2) obtain s where s: "k = JStr s" "key = escape s" by (auto simp: py_escape_Inr)
  from assms(1) obtain kvs where i: "i = JObj kvs"
    and k: "k = (case map_of kvs ''key'' of None \<Rightarrow> JStr ''(sin clave)'' | Some y \<Rightarrow> y)"
    by (auto simp: py_get_Inr)
  from i k s(1) have "shown_key i = s"
    by (cases "map_of kvs ''key''") (auto simp: shown_key_def record_key_def)
  with s(2) show ?thesis by simp
qed

lemma shown_summary_get:
  assumes "py_get i ''fields'' (JObj []) = Inr f"
    and "py_get (py_or f (JObj [])) ''summary'' (JStr ''(sin resumen)'') = Inr s"
    and "py_escape s = Inr summary"
  shows "summary = escape (shown_summary i)"
proof -
  from assms(3) obtain t where t: "s = JStr t" "summary = escape t" by (auto simp: py_escape_Inr)
  from assms(2) obtain fs where fs: "py_or f (JObj []) = JObj fs"
    and s: "s = (case map_of fs ''summary'' of None \<Rightarrow> JStr ''(sin resumen)'' | Some y \<Rightarrow> y)"
    by (auto simp: py_get_Inr)
  from record_fields_get [OF assms(1) fs] s t(1) have "shown_summary i = t"
    by (cases "map_of fs ''summary''") (auto simp: shown_summary_def record_summary_def)
  with t(2) show ?thesis by simp
qed

lemma display_name_get:
  assumes "py_get i ''fields'' (JObj []) = Inr f"
    and "py_get (py_or f (JObj [])) ''assignee'' JNull = Inr a"
    and "py_get (py_or a (JObj [])) ''displayName'' JNull = Inr n"
  shows "py_or n (JStr ''(Sin asignar)'') = JStr t \<Longrightarrow> shown_assignee i = t"
proof -
  assume t: "py_or n (JStr ''(Sin asignar)'') = JStr t"
  from assms(2) obtain fs where fs: "py_or f (JObj []) = JObj fs"
    and a: "a = (case map_of fs ''assignee'' of None \<Rightarrow> JNull | Some y \<Rightarrow> y)"
    by (auto simp: py_get_Inr)
  note rf = record_fields_get [OF assms(1) fs]
  from assms(3) obtain as where as: "py_or a (JObj []) = JObj as"
    and n: "n = (case map_of as ''displayName'' of None \<Rightarrow> JNull | Some y \<Rightarrow> y)"
    by (auto simp: py_get_Inr)
  have dn: "record_display_name i =
      (case map_of as ''displayName'' of Some (JStr u) \<Rightarrow> Some u | _ \<Rightarrow> None)"
  proof (cases "truthy a")
    case True
    with as have "a = JObj as" by (simp add: py_or_def)
    with a have "map_of fs ''assignee'' = Some (JObj as)"
      by (cases "map_of fs ''assignee''") simp_all
    with rf show ?thesis by (simp add: record_display_name_def)
  next
    case False
    with as have e: "as = []" by (simp add: py_or_def)
    from False a have "record_display_name i = None"
      unfolding record_display_name_def rf
      by (cases "map_of fs ''assignee''"; cases a) (auto split: option.splits json.splits)
    with e show ?thesis by simp
  qed
  show ?thesis
  proof (cases "truthy n")
    case True
    with t have "n = JStr t" "t \<noteq> []" by (auto simp: py_or_def)
    with n dn show ?thesis
      by (cases "map_of as ''displayName''") (auto simp: shown_assignee_def)
  next
    case False
    with t have tt: "t = ''(Sin asignar)''" by (simp add: py_or_def)
    from False n dn have "record_display_name i = None \<or> record_display_name i = Some []"
      by (cases "map_of as ''displayName''"; cases n) auto
    with tt show ?thesis by (auto simp: shown_assignee_def)
  qed
qed

lemma html_issue_shown:
  assumes "html_issue base i = Inr pcs"
  shows "pcs = html_item (issue_url base (escape (shown_key i))) (escape (shown_key i))
                 (escape (shown_summary i)) (escape (shown_assignee i))"
proof -
  from assms obtain k key f s summary a n name
    where k: "py_get i ''key'' (JStr ''(sin clave)'') = Inr k" "py_escape k = Inr key"
      and f: "py_get i ''fields'' (JObj []) = Inr f"
      and s: "py_get (py_or f (JObj [])) ''summary'' (JStr ''(sin resumen)'') = Inr s"
             "py_escape s = Inr summary"
      and a: "py_get (py_or f (JObj [])) ''assignee'' JNull = Inr a"
      and n: "py_get (py_or a (JObj [])) ''displayName'' JNull = Inr n"
             "py_escape (py_or n (JStr ''(Sin asignar)'')) = Inr name"
      and pcs: "pcs = html_item (issue_url base key) key summary name"
    unfolding html_issue_def Let_def by (elim bind_resultE) auto
  from n(2) obtain t where t: "py_or n (JStr ''(Sin asignar)'') = JStr t" "name = escape t"
    by (auto simp: py_escape_Inr)
  from display_name_get [OF f a n(1) t(1)] t(2) have "name = escape (shown_assignee i)" by simp
  with shown_key_get [OF k] shown_summary_get [OF f s] pcs show ?thesis by simp
qed

lemma map_result_list_all2:
  "map_result f xs = Inr ys \<Longrightarrow> list_all2 (\<lambda>x y. f x = Inr y) xs ys"
proof (induction xs arbitrary: ys)
  case Nil
  then show ?case by simp
next
  case (Cons x xs)
  from Cons.prems obtain y ys' where "f x = Inr y" "map_result f xs = Inr ys'" "ys = y # ys'"
    by (auto split: sum.splits)
  with Cons.IH [of ys'] show ?case by simp
qed

lemma list_all2_map_result:
  "list_all2 (\<lambda>x y. f x = Inr y) xs ys \<Longrightarrow> map_result f xs = Inr ys"
  by (induction xs ys rule: list_all2_induct) simp_all

lemma map_result_total:
  "\<forall>x \<in> set xs. \<exists>y. f x = Inr y \<Longrightarrow> \<exists>ys. map_result f xs = Inr ys"
  by (induction xs) auto

lemma owner_shown:
  assumes "py_escape (py_or (snd (fst kv)) (JStr ''(Sin asignar)'')) = Inr safe_name"
  shows "safe_name = escape (shown_owner kv)"
proof -
  from assms obtain t where t: "py_or (snd (fst kv)) (JStr ''(Sin asignar)'') = JStr t"
    "safe_name = escape t"
    by (auto simp: py_escape_Inr)
  from t(1) have "shown_owner kv = t"
    by (cases "snd (fst kv)") (auto simp: shown_owner_def owner_name_def py_or_def split: if_splits)
  with t(2) show ?thesis by simp
qed

lemma html_block_shown:
  assumes "html_block base kv = Inr b"
  shows "\<exists>lis. map_result (html_issue base) (snd kv) = Inr lis \<and>
           b = html_block_open (escape (shown_owner kv)) (length (snd kv)) @ concat lis @
               html_block_close"
proof -
  from assms obtain safe_name lis
    where n: "py_escape (py_or (snd (fst kv)) (JStr ''(Sin asignar)'')) = Inr safe_name"
      and lis: "map_result (html_issue base) (snd kv) = Inr lis"
      and b: "b = html_block_open safe_name (length (snd kv)) @ concat lis @ html_block_close"
    unfolding html_block_def by (elim bind_resultE) auto
  from owner_shown [OF n] lis b show ?thesis by simp
qed

lemma html_issues_data:
  "list_all2 (\<lambda>i pcs. html_issue base i = Inr pcs) issues lis \<Longrightarrow>
     concat (map data_of lis) = concat (map issue_data issues)"
proof (induction issues lis rule: list_all2_induct)
  case Nil
  show ?case by simp
next
  case (Cons i issues pcs lis)
  from html_issue_shown [OF Cons.hyps(1)] have "data_of pcs = issue_data i"
    by (simp add: html_item_data issue_data_def)
  with Cons.IH show ?case by simp
qed

lemma html_issues_lits:
  "list_all2 (\<lambda>i pcs. html_issue base i = Inr pcs) issues lis \<Longrightarrow>
     set (concat (map lits_of lis)) \<subseteq> set template_lits"
proof (induction issues lis rule: list_all2_induct)
  case Nil
  show ?case by simp
next
  case (Cons i issues pcs lis)
  from html_issue_shown [OF Cons.hyps(1)] have "set (lits_of pcs) \<subseteq> set template_lits"
    by (simp add: html_item_lits)
  with Cons.IH show ?case by simp
qed

lemma html_block_data:
  assumes "html_block base kv = Inr b"
  shows "data_of b = block_data kv" and "set (lits_of b) \<subseteq> set template_lits"
proof -
  from html_block_shown [OF assms] obtain lis
    where lis: "list_all2 (\<lambda>i pcs. html_issue base i = Inr pcs) (snd kv) lis"
      and b: "b = html_block_open (escape (shown_owner kv)) (length (snd kv)) @ concat lis @
                  html_block_close"
    by (auto dest: map_result_list_all2)
  from b html_issues_data [OF lis] show "data_of b = block_data kv"
    by (simp add: data_of_append data_of_concat html_block_open_data html_fixed_data
        block_data_def)
  from b html_issues_lits [OF lis] show "set (lits_of b) \<subseteq> set template_lits"
    by (simp add: lits_of_append lits_of_concat html_block_open_lits html_fixed_lits)
qed

lemma html_blocks_data:
  "list_all2 (\<lambda>kv b. html_block base kv = Inr b) items blocks \<Longrightarrow>
     concat (map data_of blocks) = concat (map block_data items) \<and>
     set (concat (map lits_of blocks)) \<subseteq> set template_lits"
proof (induction items blocks rule: list_all2_induct)
  case Nil
  show ?case by simp
next
  case (Cons kv items b blocks)
  from html_block_data [OF Cons.hyps(1)] Cons.IH show ?case by simp
qed

lemma block_data_safe: "\<forall>t \<in> set (block_data kv). no_raw_markup t"
  by (auto simp: block_data_def issue_data_def no_raw_markup_escape)

section \<open>Facts about the order of the owners\<close>

lemma insort_key_decorated:
  "\<forall>p \<in> set ps. fst p = f (snd p) \<Longrightarrow>
     map snd (insort_key fst (f x, x) ps) = insort_key f x (map snd ps)"
  by (induction ps) auto

lemma sort_key_decorated_fst:
  "\<forall>p \<in> set (sort_key fst (zip (map f xs) xs)). fst p = f (snd p)"
  by (auto simp: in_set_zip)

lemma sort_key_decorated: "map snd (sort_key fst (zip (map f xs) xs)) = sort_key f xs"
proof (induction xs)
  case Nil
  show ?case by simp
next
  case (Cons x xs)
  have "map snd (sort_key fst (zip (map f (x # xs)) (x # xs))) =
      map snd (insort_key fst (f x, x) (sort_key fst (zip (map f xs) xs)))"
    by simp
  also have "\<dots> = insort_key f x (map snd (sort_key fst (zip (map f xs) xs)))"
    using sort_key_decorated_fst by (rule insort_key_decorated)
  also have "\<dots> = sort_key f (x # xs)"
    by (simp add: Cons.IH)
  finally show ?case .
qed

lemma name_lower_Inr:
  assumes "name_lower lower kv = Inr k"
  shows "k = lower (owner_name kv)" and "snd (fst kv) = JStr (owner_name kv)"
  using assms by (cases "(lower, kv)" rule: name_lower.cases; simp add: owner_name_def)+

lemma name_lower_str: "snd (fst kv) = JStr n \<Longrightarrow> name_lower lower kv = Inr (lower n)"
  by (cases "(lower, kv)" rule: name_lower.cases) simp_all

lemma map_result_name_lower:
  "list_all2 (\<lambda>kv k. name_lower lower kv = Inr k) sel keys \<Longrightarrow>
     keys = map (\<lambda>kv. lower (owner_name kv)) sel \<and>
     (\<forall>kv \<in> set sel. snd (fst kv) = JStr (owner_name kv))"
  by (induction sel keys rule: list_all2_induct) (auto dest: name_lower_Inr)

lemma sorted_by_name_Inr:
  assumes "sorted_by_name lower sel = Inr items"
  shows "items = sort_key (\<lambda>kv. lower (owner_name kv)) sel"
    and "\<forall>kv \<in> set sel. snd (fst kv) = JStr (owner_name kv)"
proof -
  from assms obtain keys where keys: "map_result (name_lower lower) sel = Inr keys"
    and items: "items = map snd (sort_key fst (zip keys sel))"
    unfolding sorted_by_name_def by (elim bind_resultE) auto
  from map_result_name_lower [OF map_result_list_all2 [OF keys]]
  have k: "keys = map (\<lambda>kv. lower (owner_name kv)) sel"
    and n: "\<forall>kv \<in> set sel. snd (fst kv) = JStr (owner_name kv)"
    by simp_all
  from items show "items = sort_key (\<lambda>kv. lower (owner_name kv)) sel"
    unfolding k by (simp only: sort_key_decorated)
  from n show "\<forall>kv \<in> set sel. snd (fst kv) = JStr (owner_name kv)" .
qed

lemma sorted_by_name_total:
  assumes "\<forall>kv \<in> set sel. \<exists>n. snd (fst kv) = JStr n"
  shows "sorted_by_name lower sel = Inr (sort_key (\<lambda>kv. lower (owner_name kv)) sel)"
proof -
  from assms have "\<forall>kv \<in> set sel. \<exists>k. name_lower lower kv = Inr k"
    by (auto simp: name_lower_str)
  then obtain keys where keys: "map_result (name_lower lower) sel = Inr keys"
    using map_result_total by blast
  then have "sorted_by_name lower sel = Inr (map snd (sort_key fst (zip keys sel)))"
    by (simp add: sorted_by_name_def bind_result_def)
  then show ?thesis using sorted_by_name_Inr(1) by simp
qed

lemma html_pieces_Inr:
  assumes "html_pieces lower base d sel total_issues = Inr ps"
  obtains items blocks where "sorted_by_name lower sel = Inr items"
    and "list_all2 (\<lambda>kv b. html_block base kv = Inr b) items blocks"
    and "ps = html_open (preheader_text total_issues (isoformat d)) (isoformat d) total_issues @
              (if sel = [] then html_no_selection else []) @ concat blocks @ html_end"
proof -
  from assms obtain items blocks where "sorted_by_name lower sel = Inr items"
    and "map_result (html_block base) items = Inr blocks"
    and "ps = html_open (preheader_text total_issues (isoformat d)) (isoformat d) total_issues @
              (if sel = [] then html_no_selection else []) @ concat blocks @ html_end"
    unfolding html_pieces_def Let_def by (elim bind_resultE) auto
  then show ?thesis using that by (auto dest: map_result_list_all2)
qed

lemma build_email_html_Inr:
  "build_email_html lower base d sel total_issues = Inr h \<longleftrightarrow>
     (\<exists>ps. html_pieces lower base d sel total_issues = Inr ps \<and> h = flatten ps)"
  by (auto simp: build_email_html_def bind_result_Inr)

lemma console_blocks_lines:
  "console_blocks repr base items = (out, None) \<Longrightarrow>
     out = concat (map (\<lambda>kv. console_heading repr kv # fst (console_issues repr base (snd kv))) items)"
proof (induction items arbitrary: out)
  case Nil
  then show ?case by simp
next
  case (Cons kv items)
  from Cons.prems obtain o1 o2 where 1: "console_issues repr base (snd kv) = (o1, None)"
    and 2: "console_blocks repr base items = (o2, None)"
    and out: "out = console_heading repr kv # o1 @ o2"
    by (auto split: prod.splits option.splits)
  from Cons.IH [OF 2] 1 out show ?case by simp
qed

section \<open>Facts about partial records\<close>

lemma absent_or_str_cases:
  assumes "absent_or_str x"
  obtains "x = None" | s where "x = Some (JStr s)"
  using assms by (cases x rule: absent_or_str.cases) auto

lemma assignee_tolerated_cases:
  assumes "assignee_tolerated x"
  obtains "x = None" | "x = Some JNull"
  | a v where "x = Some (JObj a)" "map_of a ''accountId'' = Some v" "hashable v"
      "absent_or_str (map_of a ''displayName'')"
  using assms by (cases x rule: assignee_tolerated.cases) (auto split: option.splits)

lemma fields_tolerated_cases:
  assumes "fields_tolerated x"
  obtains "x = None"
  | fs where "x = Some (JObj fs)" "absent_or_str (map_of fs ''summary'')"
      "assignee_tolerated (map_of fs ''assignee'')"
  using assms by (cases x rule: fields_tolerated.cases) auto

lemma tolerated_record_fields:
  assumes "tolerated_record i"
  obtains kvs fs where "i = JObj kvs" "absent_or_str (map_of kvs ''key'')"
    "py_get i ''fields'' (JObj []) = Inr (JObj fs)" "py_or (JObj fs) (JObj []) = JObj fs"
    "absent_or_str (map_of fs ''summary'')" "assignee_tolerated (map_of fs ''assignee'')"
proof -
  from assms obtain kvs where i: "i = JObj kvs" and k: "absent_or_str (map_of kvs ''key'')"
    and f: "fields_tolerated (map_of kvs ''fields'')"
    by (cases i) auto
  from f show ?thesis
  proof (cases rule: fields_tolerated_cases)
    case 1
    with i k that [of kvs "[]"] show ?thesis by (simp add: py_or_def)
  next
    case (2 fs)
    with i k that [of kvs fs] show ?thesis by (simp add: py_or_def)
  qed
qed

lemma assignee_tolerated_name:
  assumes "assignee_tolerated (map_of fs ''assignee'')"
  obtains a n where "py_get (JObj fs) ''assignee'' JNull = Inr a"
    "py_get (py_or a (JObj [])) ''displayName'' JNull = Inr n"
    "\<exists>t. py_or n (JStr ''(Sin asignar)'') = JStr t"
  using assms
proof (cases rule: assignee_tolerated_cases)
  case 1
  with that [of JNull JNull] show ?thesis by (simp add: py_or_def)
next
  case 2
  with that [of JNull JNull] show ?thesis by (simp add: py_or_def)
next
  case (3 a v)
  then have ne: "a \<noteq> []" by auto
  from 3(4) show ?thesis
  proof (cases rule: absent_or_str_cases)
    case 1
    with 3 ne that [of "JObj a" JNull] show ?thesis by (auto simp: py_or_def)
  next
    case (2 s)
    with 3 ne that [of "JObj a" "JStr s"] show ?thesis by (auto simp: py_or_def)
  qed
qed

lemma html_issue_tolerated:
  assumes "tolerated_record i"
  shows "\<exists>pcs. html_issue base i = Inr pcs"
proof -
  from assms obtain kvs fs where i: "i = JObj kvs" and k: "absent_or_str (map_of kvs ''key'')"
    and f: "py_get i ''fields'' (JObj []) = Inr (JObj fs)" "py_or (JObj fs) (JObj []) = JObj fs"
    and s: "absent_or_str (map_of fs ''summary'')"
    and a: "assignee_tolerated (map_of fs ''assignee'')"
    by (rule tolerated_record_fields)
  from k i obtain key where key: "py_get i ''key'' (JStr ''(sin clave)'') = Inr (JStr key)"
    by (cases rule: absent_or_str_cases) auto
  from s obtain summary
    where summary: "py_get (JObj fs) ''summary'' (JStr ''(sin resumen)'') = Inr (JStr summary)"
    by (cases rule: absent_or_str_cases) auto
  from a obtain a' n t where n: "py_get (JObj fs) ''assignee'' JNull = Inr a'"
    "py_get (py_or a' (JObj [])) ''displayName'' JNull = Inr n"
    "py_or n (JStr ''(Sin asignar)'') = JStr t"
    by (rule assignee_tolerated_name) blast
  show ?thesis
    by (simp add: html_issue_def bind_result_def Let_def key f summary n del: py_get.simps)
qed

lemma console_issue_tolerated:
  assumes "tolerated_record i"
  shows "console_issue repr base i = Inr (console_line base i)"
proof -
  from assms obtain kvs fs where i: "i = JObj kvs" and k: "absent_or_str (map_of kvs ''key'')"
    and f: "py_get i ''fields'' (JObj []) = Inr (JObj fs)" "py_or (JObj fs) (JObj []) = JObj fs"
    and s: "absent_or_str (map_of fs ''summary'')"
    and a: "assignee_tolerated (map_of fs ''assignee'')"
    by (rule tolerated_record_fields)
  note rf = record_fields_get [OF f]
  from k i have key: "py_get i ''key'' (JStr ''(sin clave)'') = Inr (JStr (shown_key i))"
    by (cases rule: absent_or_str_cases) (auto simp: shown_key_def record_key_def)
  from s obtain sv where sv: "py_get (JObj fs) ''summary'' JNull = Inr sv"
    "short repr sv = shown_short i"
    by (cases rule: absent_or_str_cases)
      (auto simp: short_def shown_short_def record_summary_def rf Let_def)
  from a obtain a' n t where n: "py_get (JObj fs) ''assignee'' JNull = Inr a'"
    "py_get (py_or a' (JObj [])) ''displayName'' JNull = Inr n"
    "py_or n (JStr ''(Sin asignar)'') = JStr t"
    by (rule assignee_tolerated_name) blast
  from display_name_get [OF f(1) _ n(2) n(3)] n(1) f(2) have t: "shown_assignee i = t"
    by simp
  show ?thesis
    by (simp add: console_issue_def bind_result_def Let_def key f sv n t console_line_def
        del: py_get.simps)
qed

lemma group_key_tolerated:
  assumes "tolerated_record i"
  shows "\<exists>a. group_key i = Inr (a, JStr (grouped_name i)) \<and> hashable a"
proof -
  from assms obtain kvs fs where i: "i = JObj kvs"
    and f: "py_get i ''fields'' (JObj []) = Inr (JObj fs)" "py_or (JObj fs) (JObj []) = JObj fs"
    and a: "assignee_tolerated (map_of fs ''assignee'')"
    by (rule tolerated_record_fields)
  note rf = record_fields_get [OF f]
  from a show ?thesis
  proof (cases rule: assignee_tolerated_cases)
    case 1
    then show ?thesis by (simp add: group_key_def f grouped_name_def rf)
  next
    case 2
    then show ?thesis by (simp add: group_key_def f grouped_name_def rf)
  next
    case (3 a v)
    then have ne: "a \<noteq> []" by auto
    from 3(4) show ?thesis
      by (cases rule: absent_or_str_cases) (use 3 ne in \<open>auto simp: group_key_def f grouped_name_def rf\<close>)
  qed
qed

lemma py_eq_JStr: "py_eq (JStr n) v \<Longrightarrow> v = JStr n"
  by (cases v) (simp_all add: py_eq_def)

lemma group_loop_tolerated:
  "\<forall>i \<in> set issues. tolerated_record i \<Longrightarrow> \<exists>g'. group_loop g issues = Inr g'"
proof (induction issues arbitrary: g)
  case Nil
  show ?case by simp
next
  case (Cons i issues)
  then have "tolerated_record i" by simp
  from group_key_tolerated [OF this]
  obtain a where a: "group_key i = Inr (a, JStr (grouped_name i))" "hashable a" by blast
  then have "owner_hashable (a, JStr (grouped_name i))" by (simp add: owner_hashable_def)
  with a Cons show ?case by simp
qed

lemma group_by_assignee_tolerated:
  assumes "\<forall>i \<in> set issues. tolerated_record i"
  shows "\<exists>g. group_by_assignee issues = Inr g \<and> is_dict g \<and>
           (\<forall>kv \<in> set g. (\<exists>n. snd (fst kv) = JStr n) \<and> set (snd kv) \<subseteq> set issues)"
proof -
  from group_loop_tolerated [OF assms, of "[]"]
  obtain g where g: "group_by_assignee issues = Inr g"
    by (auto simp: group_by_assignee_def)
  then have d: "is_dict g"
    using group_loop_is_dict [of "[]" issues g] by (simp add: group_by_assignee_def)
  have "(\<exists>n. snd (fst kv) = JStr n) \<and> set (snd kv) \<subseteq> set issues" if kv: "kv \<in> set g" for kv
  proof -
    obtain k items where p: "kv = (k, items)" by (cases kv)
    with kv have mem: "(k, items) \<in> set g" by simp
    note b = group_by_assignee_bucket [OF g mem]
    from b(1) have sub: "set items \<subseteq> set issues" by (auto simp: issues_of_def)
    from b(2) obtain i where i: "i \<in> set items" by (cases items) auto
    with b(1) have hk: "has_key k i" and "i \<in> set issues" by (auto simp: issues_of_def)
    with assms have "tolerated_record i" by simp
    from group_key_tolerated [OF this]
    obtain a where "group_key i = Inr (a, JStr (grouped_name i))" by blast
    with hk have "py_eq (JStr (grouped_name i)) (snd k)"
      by (simp add: has_key_def owner_eq_def)
    then have "snd k = JStr (grouped_name i)" by (rule py_eq_JStr)
    with sub p show ?thesis by simp
  qed
  with g d show ?thesis by blast
qed

lemma chosen_from_tolerated:
  assumes "list_all2 (chosen_from n) g sel"
    and "\<forall>kv \<in> set g. (\<exists>n. snd (fst kv) = JStr n) \<and> set (snd kv) \<subseteq> A"
  shows "\<forall>kv \<in> set sel. (\<exists>n. snd (fst kv) = JStr n) \<and> set (snd kv) \<subseteq> A"
proof
  fix q assume "q \<in> set sel"
  from list_all2_chosen_mem_rev [OF assms(1) this]
  obtain p where p: "p \<in> set g" "chosen_from n p q" by blast
  from p(2) have "fst q = fst p" and "mset (snd q) \<subseteq># mset (snd p)"
    by (simp_all add: chosen_from_def)
  from this(2) have "set_mset (mset (snd q)) \<subseteq> set_mset (mset (snd p))"
    by (rule set_mset_mono)
  then have "set (snd q) \<subseteq> set (snd p)" by simp
  note \<open>fst q = fst p\<close> this
  with assms(2) p(1) show "(\<exists>n. snd (fst q) = JStr n) \<and> set (snd q) \<subseteq> A" by fastforce
qed

lemma html_block_tolerated:
  assumes "snd (fst kv) = JStr n" and "\<forall>i \<in> set (snd kv). tolerated_record i"
  shows "\<exists>b. html_block base kv = Inr b"
proof -
  from assms(2) have "\<forall>i \<in> set (snd kv). \<exists>pcs. html_issue base i = Inr pcs"
    by (simp add: html_issue_tolerated)
  then obtain lis where "map_result (html_issue base) (snd kv) = Inr lis"
    using map_result_total by blast
  moreover have "\<exists>t. py_escape (py_or (JStr n) (JStr ''(Sin asignar)'')) = Inr t"
    by (simp add: py_or_def)
  ultimately show ?thesis using assms(1)
    by (auto simp: html_block_def bind_result_def)
qed

lemma build_email_html_tolerated:
  assumes "\<forall>kv \<in> set sel. (\<exists>n. snd (fst kv) = JStr n) \<and> (\<forall>i \<in> set (snd kv). tolerated_record i)"
  shows "\<exists>h. build_email_html lower base d sel total_issues = Inr h"
proof -
  let ?items = "sort_key (\<lambda>kv. lower (owner_name kv)) sel"
  from assms have s: "sorted_by_name lower sel = Inr ?items"
    by (intro sorted_by_name_total) blast
  from assms have "\<forall>kv \<in> set ?items. \<exists>b. html_block base kv = Inr b"
    by (auto intro: html_block_tolerated)
  then obtain blocks where "map_result (html_block base) ?items = Inr blocks"
    using map_result_total by blast
  with s show ?thesis
    by (simp add: build_email_html_def html_pieces_def bind_result_def Let_def)
qed

lemma console_issues_tolerated:
  "\<forall>i \<in> set issues. tolerated_record i \<Longrightarrow>
     console_issues repr base issues = (map (console_line base) issues, None)"
  by (induction issues) (simp_all add: console_issue_tolerated)

lemma console_blocks_tolerated:
  "\<forall>kv \<in> set items. \<forall>i \<in> set (snd kv). tolerated_record i \<Longrightarrow>
     \<exists>out. console_blocks repr base items = (out, None)"
proof (induction items)
  case Nil
  show ?case by simp
next
  case (Cons kv items)
  then obtain out where "console_blocks repr base items = (out, None)" by auto
  moreover from Cons.prems
  have "console_issues repr base (snd kv) = (map (console_line base) (snd kv), None)"
    by (intro console_issues_tolerated) simp
  ultimately show ?case by simp
qed

lemma print_console_summary_tolerated:
  assumes "\<forall>kv \<in> set sel. (\<exists>n. snd (fst kv) = JStr n) \<and> (\<forall>i \<in> set (snd kv). tolerated_record i)"
  shows "\<exists>out. print_console_summary lower repr base sel total_issues = (out, Inr JNull)"
proof (cases "sel = []")
  case True
  then show ?thesis by (simp add: print_console_summary_def)
next
  case False
  let ?items = "sort_key (\<lambda>kv. lower (owner_name kv)) sel"
  from assms have s: "sorted_by_name lower sel = Inr ?items"
    by (intro sorted_by_name_total) blast
  from assms have "\<forall>kv \<in> set ?items. \<forall>i \<in> set (snd kv). tolerated_record i" by simp
  then obtain out where "console_blocks repr base ?items = (out, None)"
    using console_blocks_tolerated by blast
  with s False show ?thesis by (simp add: print_console_summary_def)
qed

section \<open>The example records, evaluated\<close>

lemma has_assignee_ex: "has_assignee ex_ana" "\<not> has_assignee ex_free" "has_assignee ex_anon"
  by (simp_all add: has_assignee_def issue_assignee_def bind_result_def ex_ana_def ex_free_def
      ex_anon_def)

lemma fields_readable_ex: "fields_readable ex_ana" "fields_readable ex_free" "fields_readable ex_anon"
  by (simp_all add: ex_ana_def ex_free_def ex_anon_def)

lemma ascii_lower_ex: "ascii_lower ''Ana'' = ''ana''" "ascii_lower ''(Sin asignar)'' = ''(sin asignar)''"
  by (simp_all add: ascii_lower_def)

lemma isoformat_ex: "isoformat ex_date = ''2024-03-09''"
  by (simp add: isoformat_def ex_date_def zfill_def str_of_nat.simps)

lemma sorted_by_name_ex:
  "sorted_by_name ascii_lower ex_selection = Inr [(key_free, [ex_free]), (key_ana, [ex_ana])]"
  by (simp add: sorted_by_name_def bind_result_def ex_selection_def key_ana_def key_free_def
      ascii_lower_ex)

lemma tolerated_ex: "tolerated_record ex_ana" "tolerated_record ex_free" "tolerated_record ex_anon"
  by (simp_all add: ex_ana_def ex_free_def ex_anon_def)

lemma shown_ex_ana:
  "shown_key ex_ana = ''INC-1''" "shown_summary ex_ana = ''Router <down> & out''"
  "shown_assignee ex_ana = ''Ana''" "shown_short ex_ana = ''Router <down> & out''"
  by (simp_all add: shown_key_def shown_summary_def shown_assignee_def shown_short_def
      record_key_def record_summary_def record_display_name_def record_fields_def ex_ana_def
      py_len_def is_continuation_def)

lemma shown_ex_free:
  "shown_key ex_free = ''INC-2''" "shown_summary ex_free = ''Printer''"
  "shown_assignee ex_free = ''(Sin asignar)''" "shown_short ex_free = ''Printer''"
  by (simp_all add: shown_key_def shown_summary_def shown_assignee_def shown_short_def
      record_key_def record_summary_def record_display_name_def record_fields_def ex_free_def
      py_len_def is_continuation_def)

lemma shown_ex_anon:
  "shown_key ex_anon = ''(sin clave)''" "shown_summary ex_anon = ''(sin resumen)''"
  "shown_assignee ex_anon = ''(Sin asignar)''" "shown_short ex_anon = ''(sin resumen)''"
  "grouped_name ex_anon = ''Desconocido''"
  by (simp_all add: shown_key_def shown_summary_def shown_assignee_def shown_short_def
      record_key_def record_summary_def record_display_name_def record_fields_def ex_anon_def
      grouped_name_def)

lemma escape_ex:
  "escape ''INC-1'' = ''INC-1''" "escape ''INC-2'' = ''INC-2''" "escape ''Ana'' = ''Ana''"
  "escape ''Printer'' = ''Printer''" "escape ''(Sin asignar)'' = ''(Sin asignar)''"
  "escape ''(sin clave)'' = ''(sin clave)''" "escape ''(sin resumen)'' = ''(sin resumen)''"
  "escape ''Router <down> & out'' = ''Router &lt;down&gt; &amp; out''"
  by (simp_all add: escape_chars escape_char_def)

lemma html_issue_ex:
  "html_issue ex_base ex_ana =
     Inr (html_item (issue_url ex_base ''INC-1'') ''INC-1'' ''Router &lt;down&gt; &amp; out'' ''Ana'')"
  "html_issue ex_base ex_free =
     Inr (html_item (issue_url ex_base ''INC-2'') ''INC-2'' ''Printer'' ''(Sin asignar)'')"
proof -
  from html_issue_tolerated [OF tolerated_ex(1)] obtain p where "html_issue ex_base ex_ana = Inr p"
    by blast
  with html_issue_shown [OF this] show "html_issue ex_base ex_ana =
      Inr (html_item (issue_url ex_base ''INC-1'') ''INC-1'' ''Router &lt;down&gt; &amp; out'' ''Ana'')"
    by (simp add: shown_ex_ana escape_ex)
  from html_issue_tolerated [OF tolerated_ex(2)] obtain q where "html_issue ex_base ex_free = Inr q"
    by blast
  with html_issue_shown [OF this] show "html_issue ex_base ex_free =
      Inr (html_item (issue_url ex_base ''INC-2'') ''INC-2'' ''Printer'' ''(Sin asignar)'')"
    by (simp add: shown_ex_free escape_ex)
qed

lemma html_block_ex:
  "html_block ex_base (key_free, [ex_free]) =
     Inr (html_block_open ''(Sin asignar)'' 1 @
          html_item (issue_url ex_base ''INC-2'') ''INC-2'' ''Printer'' ''(Sin asignar)'' @
          html_block_close)"
  "html_block ex_base (key_ana, [ex_ana]) =
     Inr (html_block_open ''Ana'' 1 @
          html_item (issue_url ex_base ''INC-1'') ''INC-1'' ''Router &lt;down&gt; &amp; out'' ''Ana'' @
          html_block_close)"
  by (simp_all add: html_block_def bind_result_def html_issue_ex key_ana_def key_free_def
      py_or_def escape_ex)

lemma ex_selection_nonempty: "ex_selection \<noteq> []"
  by (simp add: ex_selection_def)

lemma build_email_html_ex:
  "build_email_html ascii_lower ex_base ex_date ex_selection 2 = Inr ex_html"
  by (simp add: build_email_html_def html_pieces_def bind_result_def Let_def sorted_by_name_ex
      isoformat_ex html_block_ex ex_selection_nonempty ex_html_def)

lemma console_blocks_ex:
  "console_blocks (\<lambda>v. []) ex_base [(key_free, [ex_free]), (key_ana, [ex_ana])] =
     (drop 2 ex_console, None)"
  by (simp add: console_issue_tolerated tolerated_ex console_line_def shown_ex_ana shown_ex_free
      console_heading_def key_ana_def key_free_def str_of_nat.simps ex_console_def ex_base_def)

lemma print_console_summary_ex:
  "print_console_summary ascii_lower (\<lambda>v. []) ex_base ex_selection 2 = (ex_console, Inr JNull)"
  by (simp add: print_console_summary_def sorted_by_name_ex console_blocks_ex
      ex_selection_nonempty console_total_def str_of_int_digit del: console_blocks.simps)
    (simp add: ex_console_def)

lemma block_data_ex:
  "block_data (key_free, [ex_free]) =
     [''(Sin asignar)'', ''INC-2'', ''INC-2'', ''Printer'', ''(Sin asignar)'']"
  "block_data (key_ana, [ex_ana]) =
     [''Ana'', ''INC-1'', ''INC-1'', ''Router &lt;down&gt; &amp; out'', ''Ana'']"
  by (simp_all add: block_data_def issue_data_def shown_owner_def owner_name_def key_free_def
      key_ana_def shown_ex_free shown_ex_ana escape_ex)

lemma ex_is_dict: "is_dict [(key_ana, [ex_ana, ex_ana2]), (key_free, [ex_free])]"
  by (simp add: key_ana_def key_free_def owner_hashable_def owner_eq_def py_eq_def)

lemma group_key_ex_ana: "group_key ex_ana = Inr key_ana"
  by (simp add: group_key_def ex_ana_def key_ana_def)

lemma group_key_ex_ana2: "group_key ex_ana2 = Inr key_ana"
  by (simp add: group_key_def ex_ana2_def key_ana_def)

lemma group_key_ex_free: "group_key ex_free = Inr key_free"
  by (simp add: group_key_def ex_free_def key_free_def)

lemma group_key_ex_anon: "group_key ex_anon = Inr key_anon"
  by (simp add: group_key_def ex_anon_def key_anon_def)

lemma ex_keys_differ:
  "\<not> owner_eq key_ana key_free" "\<not> owner_eq key_ana key_anon" "\<not> owner_eq key_free key_anon"
  "\<not> owner_eq key_free key_ana" "\<not> owner_eq key_anon key_ana" "\<not> owner_eq key_anon key_free"
  by (simp_all add: owner_eq_def py_eq_def key_ana_def key_free_def key_anon_def)

lemma ex_keys_hashable: "owner_hashable key_ana" "owner_hashable key_free" "owner_hashable key_anon"
  by (simp_all add: owner_hashable_def key_ana_def key_free_def key_anon_def)

lemma group_by_assignee_ex:
  "group_by_assignee [ex_ana, ex_free, ex_anon, ex_ana2] =
     Inr [(key_ana, [ex_ana, ex_ana2]), (key_free, [ex_free]), (key_anon, [ex_anon])]"
  by (simp add: group_by_assignee_def group_key_ex_ana group_key_ex_ana2 group_key_ex_free
      group_key_ex_anon ex_keys_differ ex_keys_hashable owner_eq_refl)

section \<open>The sampler\<close>

text \<open>
  C1. For every group mapping and every bound \<open>k \<ge> 0\<close>, \<^verbatim>\<open>pick_random_per_analyst\<close>
  returns a selection (it does not raise) whose keys are the owner identities of the
  groups, in the same order; and for every owner the selected list is drawn from that
  owner's group (as a multiset it is contained in the group) and has
  \<open>min k (length group)\<close> issues. This holds for every run \<open>rnd\<close> of the generator.
\<close>

theorem pick_random_per_analyst_bound:
  assumes "is_dict groups" and "0 \<le> k"
  shows "\<exists>selection. pick_random_per_analyst rnd groups k = Inr selection \<and>
           map fst selection = map fst groups \<and> is_dict selection \<and>
           (\<forall>(key, items) \<in> set groups. \<exists>chosen.
              dict_lookup selection key = Some chosen \<and> mset chosen \<subseteq># mset items \<and>
              length chosen = min (nat k) (length items))"
proof -
  from pick_random_per_analyst_chosen [OF assms]
  obtain sel where sel: "pick_random_per_analyst rnd groups k = Inr sel"
    and all: "list_all2 (chosen_from (nat k)) groups sel" and d: "is_dict sel"
    by blast
  from all have keys: "map fst sel = map fst groups" by (rule list_all2_chosen_keys)
  have "\<forall>(key, items) \<in> set groups. \<exists>chosen.
      dict_lookup sel key = Some chosen \<and> mset chosen \<subseteq># mset items \<and>
      length chosen = min (nat k) (length items)"
    using chosen_lookup [OF all d] by (simp add: split_beta)
  with sel keys d show ?thesis by simp
qed

theorem pick_random_per_analyst_bound_witness:
  "is_dict [(key_ana, [ex_ana, ex_ana2]), (key_free, [ex_free])] \<and> (0::int) \<le> 1 \<and>
   (\<exists>selection.
      pick_random_per_analyst (\<lambda>i. 1) [(key_ana, [ex_ana, ex_ana2]), (key_free, [ex_free])] 1 =
        Inr selection \<and>
      map fst selection = [key_ana, key_free] \<and>
      (\<exists>chosen. dict_lookup selection key_ana = Some chosen \<and>
         mset chosen \<subseteq># mset [ex_ana, ex_ana2] \<and> length chosen = 1))"
proof -
  have k: "(0::int) \<le> 1" by simp
  from pick_random_per_analyst_bound [OF ex_is_dict k, of "\<lambda>i. 1"] ex_is_dict
  show ?thesis by auto
qed

text \<open>
  C3, as the claim has it, fails for a negative bound: \<^verbatim>\<open>min(per_analyst, len(items))\<close>
  is then negative and \<^verbatim>\<open>random.sample\<close> raises \<^verbatim>\<open>ValueError\<close> at the first group.
\<close>

theorem pick_random_per_analyst_negative_counterexample:
  "is_dict [(key_ana, [ex_ana])] \<and> (-1::int) \<le> 0 \<and>
   pick_random_per_analyst (\<lambda>i. 0) [(key_ana, [ex_ana])] (-1) = Inl ValueError"
  by (simp add: pick_random_per_analyst_def random_sample_def key_ana_def owner_hashable_def)

text \<open>
  C3, amended. For every group mapping and every bound \<open>k \<le> 0\<close>: when \<open>k = 0\<close>, or
  when there is no group at all, the sampler returns the selection that gives every owner
  the empty list, and does not raise; for a negative bound and at least one group it
  raises \<^verbatim>\<open>ValueError\<close>.
\<close>

theorem pick_random_per_analyst_zero:
  assumes "is_dict groups" and "k \<le> 0"
  shows "pick_random_per_analyst rnd groups k =
           (if k = 0 \<or> groups = [] then Inr (map (\<lambda>(key, items). (key, [])) groups)
            else Inl ValueError)"
proof (cases "k = 0")
  case True
  from pick_random_per_analyst_chosen [OF assms(1), of 0 rnd]
  obtain sel where sel: "pick_random_per_analyst rnd groups 0 = Inr sel"
    and all: "list_all2 (chosen_from 0) groups sel"
    by auto
  from all have "sel = map (\<lambda>(key, items). (key, [])) groups" by (rule list_all2_chosen_zero)
  with sel True show ?thesis by simp
next
  case False
  with assms(2) have neg: "k < 0" by simp
  show ?thesis
  proof (cases "groups = []")
    case True
    then show ?thesis by (simp add: pick_random_per_analyst_def)
  next
    case nonempty: False
    with neg have "pick_loop rnd 0 [] groups k = Inl ValueError" by (rule pick_loop_negative)
    with False nonempty show ?thesis by (simp add: pick_random_per_analyst_def)
  qed
qed

theorem pick_random_per_analyst_zero_witness:
  "is_dict [(key_ana, [ex_ana, ex_ana2]), (key_free, [ex_free])] \<and> (0::int) \<le> 0 \<and>
   pick_random_per_analyst (\<lambda>i. 1) [(key_ana, [ex_ana, ex_ana2]), (key_free, [ex_free])] 0 =
     Inr [(key_ana, []), (key_free, [])]"
proof -
  have k: "(0::int) \<le> 0" by simp
  from pick_random_per_analyst_zero [OF ex_is_dict k, of "\<lambda>i. 1"] ex_is_dict
  show ?thesis by simp
qed

text \<open>
  C5, as the claim has it, fails: \<^verbatim>\<open>random.sample(items, len(items))\<close> returns the
  issues of the group in a drawn order, so the selected list need not equal the group.
  With a generator that hands out 1 the two issues of Ana come back swapped.
\<close>

theorem pick_random_per_analyst_order_counterexample:
  "int (length [ex_ana, ex_ana2]) \<le> 2 \<and>
   pick_random_per_analyst (\<lambda>i. 1) [(key_ana, [ex_ana, ex_ana2])] 2 =
     Inr [(key_ana, [ex_ana2, ex_ana])] \<and>
   [ex_ana2, ex_ana] \<noteq> [ex_ana, ex_ana2]"
proof -
  have "ex_ana2 \<noteq> ex_ana" by (simp add: ex_ana_def ex_ana2_def)
  then show ?thesis
    by (simp add: pick_random_per_analyst_def random_sample_def eval_nat_numeral)
qed

text \<open>
  C5, amended. For every owner whose group has at most \<open>k\<close> issues, the sampler's
  selection for that owner holds exactly the issues of the group, each as often as the
  group does (the same multiset): nothing is lost, and only the order is drawn.
\<close>

theorem pick_random_per_analyst_small_group:
  assumes "is_dict groups" and "(key, items) \<in> set groups" and "int (length items) \<le> k"
  shows "\<exists>selection chosen. pick_random_per_analyst rnd groups k = Inr selection \<and>
           dict_lookup selection key = Some chosen \<and> mset chosen = mset items"
proof -
  from assms(3) have k: "0 \<le> k" by linarith
  from pick_random_per_analyst_chosen [OF assms(1) k]
  obtain sel where sel: "pick_random_per_analyst rnd groups k = Inr sel"
    and all: "list_all2 (chosen_from (nat k)) groups sel" and d: "is_dict sel"
    by blast
  from chosen_lookup [OF all d assms(2)]
  obtain chosen where c: "dict_lookup sel key = Some chosen" "mset chosen \<subseteq># mset items"
    "length chosen = min (nat k) (length items)"
    by blast
  from c(3) assms(3) have "size (mset items) = size (mset chosen)" by simp
  with c(2) have "mset chosen = mset items" by (rule mset_subseteq_same_size)
  with sel c(1) show ?thesis by blast
qed

theorem pick_random_per_analyst_small_group_witness:
  "is_dict [(key_ana, [ex_ana, ex_ana2]), (key_free, [ex_free])] \<and>
   (key_ana, [ex_ana, ex_ana2]) \<in> set [(key_ana, [ex_ana, ex_ana2]), (key_free, [ex_free])] \<and>
   int (length [ex_ana, ex_ana2]) \<le> 2 \<and>
   (\<exists>selection chosen.
      pick_random_per_analyst (\<lambda>i. 1) [(key_ana, [ex_ana, ex_ana2]), (key_free, [ex_free])] 2 =
        Inr selection \<and>
      dict_lookup selection key_ana = Some chosen \<and> mset chosen = mset [ex_ana, ex_ana2])"
proof -
  have m: "(key_ana, [ex_ana, ex_ana2]) \<in> set [(key_ana, [ex_ana, ex_ana2]), (key_free, [ex_free])]"
    by simp
  have k: "int (length [ex_ana, ex_ana2]) \<le> 2" by simp
  from pick_random_per_analyst_small_group [OF ex_is_dict m k, of "\<lambda>i. 1"] ex_is_dict
  show ?thesis by simp
qed

section \<open>The grouper\<close>

text \<open>
  C2. Whenever \<^verbatim>\<open>group_by_assignee\<close> returns the groups of an issue list, the buckets
  together hold the issues of the list, each as often as the list does (no issue lost,
  none duplicated); the keys of the buckets are pairwise different, so an issue's key
  names one bucket; and the bucket of a key is the sublist of the issues with that key, in
  the order of the input. No bucket is empty.
\<close>

theorem group_by_assignee_partition:
  assumes "group_by_assignee issues = Inr g"
  shows "mset (concat (map snd g)) = mset issues \<and> is_dict g \<and>
         (\<forall>(k, items) \<in> set g. items = issues_of k issues \<and> items \<noteq> [])"
proof -
  from assms have loop: "group_loop [] issues = Inr g"
    by (simp add: group_by_assignee_def)
  from group_loop_mset [OF loop] have "mset (concat (map snd g)) = mset issues"
    by simp
  moreover from loop have "is_dict g"
    by (rule group_loop_is_dict) simp
  moreover have "\<forall>(k, items) \<in> set g. items = issues_of k issues \<and> items \<noteq> []"
    using group_by_assignee_bucket [OF assms] by blast
  ultimately show ?thesis by simp
qed

theorem group_by_assignee_partition_witness:
  "group_by_assignee [ex_ana, ex_free, ex_anon, ex_ana2] =
     Inr [(key_ana, [ex_ana, ex_ana2]), (key_free, [ex_free]), (key_anon, [ex_anon])] \<and>
   mset (concat (map snd [(key_ana, [ex_ana, ex_ana2]), (key_free, [ex_free]), (key_anon, [ex_anon])])) =
     mset [ex_ana, ex_free, ex_anon, ex_ana2] \<and>
   [ex_ana, ex_ana2] = issues_of key_ana [ex_ana, ex_free, ex_anon, ex_ana2]"
proof -
  note p = group_by_assignee_partition [OF group_by_assignee_ex]
  from p have "mset (concat (map snd [(key_ana, [ex_ana, ex_ana2]), (key_free, [ex_free]),
      (key_anon, [ex_anon])])) = mset [ex_ana, ex_free, ex_anon, ex_ana2]"
    by (rule conjunct1)
  moreover from p have "[ex_ana, ex_ana2] = issues_of key_ana [ex_ana, ex_free, ex_anon, ex_ana2]"
    by simp
  ultimately show ?thesis using group_by_assignee_ex by blast
qed

text \<open>
  C10. The buckets are keyed by the pair of account identifier and resolved display name:
  two issues of a list whose assignees have the same account identifier and resolve to
  different display names lie in two buckets with different keys, and no bucket holds
  both. In the example one assignee of account A1 has the display name Ana and the other
  has none, which resolves to the placeholder.
\<close>

theorem group_by_assignee_keyed_by_name:
  assumes "group_by_assignee issues = Inr g"
    and "i1 \<in> set issues" and "i2 \<in> set issues"
    and "group_key i1 = Inr (a1, n1)" and "group_key i2 = Inr (a2, n2)"
    and "py_eq a1 a2" and "\<not> py_eq n1 n2"
  shows "(\<exists>k1 b1 k2 b2. (k1, b1) \<in> set g \<and> (k2, b2) \<in> set g \<and> i1 \<in> set b1 \<and> i2 \<in> set b2 \<and>
            owner_eq k1 (a1, n1) \<and> owner_eq k2 (a2, n2) \<and> \<not> owner_eq k1 k2) \<and>
         (\<forall>(k, b) \<in> set g. \<not> (i1 \<in> set b \<and> i2 \<in> set b))"
proof -
  from assms(1) have loop: "group_loop [] issues = Inr g"
    by (simp add: group_by_assignee_def)
  from group_loop_mset [OF loop] have all: "mset (concat (map snd g)) = mset issues"
    by simp
  have differ: "\<not> owner_eq (a1, n1) (a2, n2)"
    using assms(7) by (simp add: owner_eq_def)
  have bucket: "\<exists>k b. (k, b) \<in> set g \<and> i \<in> set b \<and> owner_eq k kk"
    if "i \<in> set issues" "group_key i = Inr kk" for i kk
  proof -
    from that(1) all have "i \<in> set (concat (map snd g))" by (metis set_mset_mset)
    then obtain k b where kb: "(k, b) \<in> set g" "i \<in> set b" by auto
    from group_by_assignee_bucket(1) [OF assms(1) kb(1)] kb(2) have "has_key k i"
      by (simp add: issues_of_def)
    with that(2) have "owner_eq kk k" by (simp add: has_key_def)
    then have "owner_eq k kk" by (rule owner_eq_sym)
    with kb show ?thesis by blast
  qed
  from bucket [OF assms(2) assms(4)]
  obtain k1 b1 where 1: "(k1, b1) \<in> set g" "i1 \<in> set b1" "owner_eq k1 (a1, n1)" by blast
  from bucket [OF assms(3) assms(5)]
  obtain k2 b2 where 2: "(k2, b2) \<in> set g" "i2 \<in> set b2" "owner_eq k2 (a2, n2)" by blast
  have "\<not> owner_eq k1 k2"
  proof
    assume "owner_eq k1 k2"
    with 1(3) 2(3) have "owner_eq (a1, n1) (a2, n2)"
      by (blast intro: owner_eq_trans owner_eq_sym)
    with differ show False ..
  qed
  with 1 2 have first: "\<exists>k1 b1 k2 b2. (k1, b1) \<in> set g \<and> (k2, b2) \<in> set g \<and> i1 \<in> set b1 \<and>
      i2 \<in> set b2 \<and> owner_eq k1 (a1, n1) \<and> owner_eq k2 (a2, n2) \<and> \<not> owner_eq k1 k2"
    by blast
  have "\<not> (i1 \<in> set b \<and> i2 \<in> set b)" if "(k, b) \<in> set g" for k b
  proof
    assume both: "i1 \<in> set b \<and> i2 \<in> set b"
    from group_by_assignee_bucket(1) [OF assms(1) that] both
    have "has_key k i1" "has_key k i2" by (simp_all add: issues_of_def)
    with assms(4,5) have "owner_eq (a1, n1) k" "owner_eq (a2, n2) k"
      by (simp_all add: has_key_def)
    then have "owner_eq (a1, n1) (a2, n2)" by (blast intro: owner_eq_trans owner_eq_sym)
    with differ show False ..
  qed
  then have "\<forall>(k, b) \<in> set g. \<not> (i1 \<in> set b \<and> i2 \<in> set b)" by blast
  with first show ?thesis by simp
qed

theorem group_by_assignee_keyed_by_name_witness:
  "group_by_assignee [ex_ana, ex_free, ex_anon, ex_ana2] =
     Inr [(key_ana, [ex_ana, ex_ana2]), (key_free, [ex_free]), (key_anon, [ex_anon])] \<and>
   ex_ana \<in> set [ex_ana, ex_free, ex_anon, ex_ana2] \<and>
   ex_anon \<in> set [ex_ana, ex_free, ex_anon, ex_ana2] \<and>
   group_key ex_ana = Inr (JStr ''A1'', JStr ''Ana'') \<and>
   group_key ex_anon = Inr (JStr ''A1'', JStr ''Desconocido'') \<and>
   py_eq (JStr ''A1'') (JStr ''A1'') \<and> \<not> py_eq (JStr ''Ana'') (JStr ''Desconocido'') \<and>
   \<not> (ex_ana \<in> set [ex_ana, ex_ana2] \<and> ex_anon \<in> set [ex_ana, ex_ana2])"
proof -
  have 1: "ex_ana \<in> set [ex_ana, ex_free, ex_anon, ex_ana2]" by simp
  have 2: "ex_anon \<in> set [ex_ana, ex_free, ex_anon, ex_ana2]" by simp
  have 3: "group_key ex_ana = Inr (JStr ''A1'', JStr ''Ana'')"
    using group_key_ex_ana by (simp add: key_ana_def)
  have 4: "group_key ex_anon = Inr (JStr ''A1'', JStr ''Desconocido'')"
    using group_key_ex_anon by (simp add: key_anon_def)
  have 5: "py_eq (JStr ''A1'') (JStr ''A1'')" by (rule py_eq_refl)
  have 6: "\<not> py_eq (JStr ''Ana'') (JStr ''Desconocido'')" by (simp add: py_eq_def)
  from group_by_assignee_keyed_by_name [OF group_by_assignee_ex 1 2 3 4 5 6]
  have "\<not> (ex_ana \<in> set [ex_ana, ex_ana2] \<and> ex_anon \<in> set [ex_ana, ex_ana2])" by simp
  with group_by_assignee_ex 1 2 3 4 5 6 show ?thesis by blast
qed

section \<open>The statistics\<close>

text \<open>
  C6, as the claim has it, fails: \<^verbatim>\<open>summarize_assignee_stats\<close> has no \<^verbatim>\<open>return\<close>.
  It prints the two counts and the call evaluates to \<^verbatim>\<open>None\<close>, not to a pair of
  counts.
\<close>

theorem summarize_assignee_stats_returns_none_counterexample:
  "summarize_assignee_stats [ex_ana, ex_free] =
     ([''[INFO] Con assignee: 1 | Sin assignee: 1''], Inr JNull) \<and>
   snd (summarize_assignee_stats [ex_ana, ex_free]) \<noteq>
     Inr (JObj [(''with_owner'', JNum 1), (''without_owner'', JNum 1)])"
  by (simp add: summarize_assignee_stats_def ex_ana_def ex_free_def issue_assignee_def
      bind_result_def stats_line_def str_of_int_digit)

text \<open>
  C6, amended. For every issue list whose records are objects with an object (or no entry)
  under \<^verbatim>\<open>fields\<close>, \<^verbatim>\<open>summarize_assignee_stats\<close> prints the one line
  \<^verbatim>\<open>[INFO] Con assignee: N | Sin assignee: M\<close> and returns \<^verbatim>\<open>None\<close>, where \<open>N\<close> is the
  number of issues that have an assignee, \<open>M\<close> the number of those that have none, and
  \<open>N + M\<close> is the length of the list.
\<close>

theorem summarize_assignee_stats_counts:
  assumes "\<forall>i \<in> set issues. fields_readable i"
  shows "summarize_assignee_stats issues =
           ([stats_line (int (length (filter has_assignee issues)))
                        (int (length (filter (\<lambda>i. \<not> has_assignee i) issues)))], Inr JNull) \<and>
         int (length (filter has_assignee issues)) +
           int (length (filter (\<lambda>i. \<not> has_assignee i) issues)) = int (length issues)"
proof -
  let ?n = "int (length (filter has_assignee issues))"
  let ?m = "int (length (filter (\<lambda>i. \<not> has_assignee i) issues))"
  have sum: "?n + ?m = int (length issues)" by (rule length_filter_split)
  then have "int (length issues) - ?n = ?m" by simp
  with count_with_assignee_readable [OF assms] sum show ?thesis
    by (simp add: summarize_assignee_stats_def)
qed

theorem summarize_assignee_stats_counts_witness:
  "fields_readable ex_ana \<and> fields_readable ex_free \<and> fields_readable ex_anon \<and>
   summarize_assignee_stats [ex_ana, ex_free, ex_anon] =
     ([''[INFO] Con assignee: 2 | Sin assignee: 1''], Inr JNull)"
proof -
  have "\<forall>i \<in> set [ex_ana, ex_free, ex_anon]. fields_readable i"
    by (simp add: fields_readable_ex)
  from summarize_assignee_stats_counts [OF this] show ?thesis
    by (simp add: has_assignee_ex fields_readable_ex stats_line_def str_of_int_digit)
qed

section \<open>The empty issue list\<close>

text \<open>
  C9. On the empty issue list nothing raises: the statistics line reports 0 and 0, the
  groups and the selection are the empty dict (for every bound and every run of the
  generator), the HTML document is its opening, then the message that no issues were
  found, then its end, with no owner block, and the console summary prints its title, the
  total and its message that no issues were found, and returns.
\<close>

theorem empty_issue_list:
  "summarize_assignee_stats [] = ([''[INFO] Con assignee: 0 | Sin assignee: 0''], Inr JNull) \<and>
   group_by_assignee [] = Inr [] \<and>
   pick_random_per_analyst rnd [] k = Inr [] \<and>
   build_email_html lower base_url d [] 0 =
     Inr (flatten (html_open (preheader_text 0 (isoformat d)) (isoformat d) 0) @
          (''            <p style=\"margin:0; color:#334155;\">\<newline>'' @
           ''            <em>No se encontraron incidentes con analista asignado. Es posible que los incidentes est'' @ e_acute @ ''n sin asignar o que el filtro no aplique.</em>\<newline>'' @
           ''            </p>\<newline>'' @
           ''        '') @
          flatten html_end) \<and>
   print_console_summary lower repr base_url [] 0 =
     ([console_title, ''Total de issues resueltos: 0'',
       ''No se encontraron issues con analista asignado para el rango.''], Inr JNull)"
proof -
  have "build_email_html lower base_url d [] 0 =
      Inr (flatten (html_open (preheader_text 0 (isoformat d)) (isoformat d) 0) @
           flatten html_no_selection @ flatten html_end)"
    by (simp add: build_email_html_def html_pieces_def sorted_by_name_def bind_result_def
        Let_def flatten_append)
  then show ?thesis
    unfolding html_no_selection_text
    by (simp add: summarize_assignee_stats_def stats_line_def str_of_int_digit
        group_by_assignee_def pick_random_per_analyst_def print_console_summary_def
        console_total_def console_no_selection_def)
qed

theorem empty_issue_list_witness:
  "summarize_assignee_stats [] = ([''[INFO] Con assignee: 0 | Sin assignee: 0''], Inr JNull) \<and>
   pick_random_per_analyst (\<lambda>i. 0) [] 3 = Inr [] \<and>
   print_console_summary ascii_lower (\<lambda>v. []) ''https://jira.example'' [] 0 =
     ([console_title, ''Total de issues resueltos: 0'',
       ''No se encontraron issues con analista asignado para el rango.''], Inr JNull)"
  using empty_issue_list [of "\<lambda>i. 0" 3 ascii_lower "''https://jira.example''"
      "\<lparr>year = 2024, month = 3, day = 9\<rparr>" "\<lambda>v. []"]
  by simp

section \<open>The renderers\<close>

text \<open>
  C7. Whenever the HTML renderer and the console renderer both return for a selection,
  there is one sequence of owners, the selection sorted by the lower-cased display name
  (equal names in the order of the selection), such that the HTML document is its opening,
  one block per owner of the sequence, in that order, each headed by the owner's name, and
  its end; and the console lines are the title, the total and, per owner of the same
  sequence in the same order, the heading with the owner's name and the owner's lines. For
  the empty selection both show their message that no issues were found, and no owner.
  \<open>lower\<close> stands for \<^verbatim>\<open>str.lower\<close>: the statement holds for every such function.
\<close>

theorem renderers_same_owner_order:
  assumes "build_email_html lower base_url d selection total_issues = Inr h"
    and "print_console_summary lower repr base_url selection total_console = (out, Inr r)"
  shows "\<exists>items blocks.
           items = sort_key (\<lambda>kv. lower (owner_name kv)) selection \<and>
           sorted (map (\<lambda>kv. lower (owner_name kv)) items) \<and> mset items = mset selection \<and>
           (\<forall>kv \<in> set items. snd (fst kv) = JStr (owner_name kv)) \<and>
           list_all2 (\<lambda>kv b. \<exists>lis. b = html_block_open (escape (shown_owner kv)) (length (snd kv)) @
                                      concat lis @ html_block_close) items blocks \<and>
           h = flatten (html_open (preheader_text total_issues (isoformat d)) (isoformat d) total_issues @
                        (if selection = [] then html_no_selection else []) @
                        concat blocks @ html_end) \<and>
           out = [console_title, console_total total_console] @
                 (if selection = [] then [console_no_selection]
                  else concat (map (\<lambda>kv. (''\<newline>'' @ owner_name kv @ '' ('' @
                                          str_of_nat (length (snd kv)) @ ''):'') #
                                         fst (console_issues repr base_url (snd kv))) items))"
proof -
  let ?key = "\<lambda>kv. lower (owner_name kv)"
  from assms(1) obtain ps where ps: "html_pieces lower base_url d selection total_issues = Inr ps"
    and h: "h = flatten ps"
    by (auto simp: build_email_html_Inr)
  from ps obtain items blocks where items: "sorted_by_name lower selection = Inr items"
    and blocks: "list_all2 (\<lambda>kv b. html_block base_url kv = Inr b) items blocks"
    and eq: "ps = html_open (preheader_text total_issues (isoformat d)) (isoformat d) total_issues @
              (if selection = [] then html_no_selection else []) @ concat blocks @ html_end"
    by (rule html_pieces_Inr)
  note s = sorted_by_name_Inr [OF items]
  from s(1) have sorted: "sorted (map ?key items)" and perm: "mset items = mset selection"
    by simp_all
  from s have names: "\<forall>kv \<in> set items. snd (fst kv) = JStr (owner_name kv)" by simp
  from blocks have shape: "list_all2 (\<lambda>kv b. \<exists>lis. b = html_block_open (escape (shown_owner kv))
      (length (snd kv)) @ concat lis @ html_block_close) items blocks"
    by (rule list_all2_mono) (use html_block_shown in blast)
  have heading: "console_heading repr kv =
      ''\<newline>'' @ owner_name kv @ '' ('' @ str_of_nat (length (snd kv)) @ ''):''"
    if "kv \<in> set items" for kv
    using names that by (simp add: console_heading_def)
  have out: "out = [console_title, console_total total_console] @
      (if selection = [] then [console_no_selection]
       else concat (map (\<lambda>kv. (''\<newline>'' @ owner_name kv @ '' ('' @
                               str_of_nat (length (snd kv)) @ ''):'') #
                              fst (console_issues repr base_url (snd kv))) items))"
  proof (cases "selection = []")
    case True
    with assms(2) show ?thesis by (simp add: print_console_summary_def)
  next
    case False
    with assms(2) items obtain out' where o: "console_blocks repr base_url items = (out', None)"
      and out: "out = [console_title, console_total total_console] @ out'"
      by (auto simp: print_console_summary_def Let_def split: prod.splits option.splits)
    from console_blocks_lines [OF o] have "out' =
        concat (map (\<lambda>kv. console_heading repr kv # fst (console_issues repr base_url (snd kv))) items)" .
    also have "\<dots> = concat (map (\<lambda>kv. (''\<newline>'' @ owner_name kv @ '' ('' @
        str_of_nat (length (snd kv)) @ ''):'') # fst (console_issues repr base_url (snd kv))) items)"
      using heading by (simp cong: map_cong)
    finally show ?thesis using out False by simp
  qed
  from s(1) sorted perm names shape h eq out show ?thesis by blast
qed

theorem renderers_same_owner_order_witness:
  "build_email_html ascii_lower ex_base ex_date ex_selection 2 = Inr ex_html \<and>
   print_console_summary ascii_lower (\<lambda>v. []) ex_base ex_selection 2 = (ex_console, Inr JNull) \<and>
   sort_key (\<lambda>kv. ascii_lower (owner_name kv)) ex_selection =
     [(key_free, [ex_free]), (key_ana, [ex_ana])] \<and>
   sorted (map (\<lambda>kv. ascii_lower (owner_name kv))
             (sort_key (\<lambda>kv. ascii_lower (owner_name kv)) ex_selection))"
proof -
  from renderers_same_owner_order [OF build_email_html_ex print_console_summary_ex]
  have "sorted (map (\<lambda>kv. ascii_lower (owner_name kv))
      (sort_key (\<lambda>kv. ascii_lower (owner_name kv)) ex_selection))"
    by blast
  moreover from sorted_by_name_Inr(1) [OF sorted_by_name_ex]
  have "sort_key (\<lambda>kv. ascii_lower (owner_name kv)) ex_selection =
      [(key_free, [ex_free]), (key_ana, [ex_ana])]"
    by simp
  ultimately show ?thesis using build_email_html_ex print_console_summary_ex by blast
qed

text \<open>
  C8. Whenever the HTML renderer returns a document, the texts it inserted from the records
  are, block by block, the escaped name of the owner and, for every issue, the escaped key
  (twice: in the link and as its text), the escaped summary and the escaped name of the
  assignee; each of these texts is free of raw markup (none of the characters
  \<^verbatim>\<open><\<close>, \<^verbatim>\<open>>\<close>, the two quotes, and every \<^verbatim>\<open>&\<close> starts a character reference); and the
  template texts of the document are those of the script, as they are, unescaped.
\<close>

theorem html_user_text_escaped:
  assumes "build_email_html lower base_url d selection total_issues = Inr h"
  shows "\<exists>ps items.
           html_pieces lower base_url d selection total_issues = Inr ps \<and> h = flatten ps \<and>
           sorted_by_name lower selection = Inr items \<and>
           data_of ps = concat (map block_data items) \<and>
           (\<forall>t \<in> set (data_of ps). no_raw_markup t) \<and>
           set (lits_of ps) \<subseteq> set template_lits"
proof -
  from assms obtain ps where ps: "html_pieces lower base_url d selection total_issues = Inr ps"
    and h: "h = flatten ps"
    by (auto simp: build_email_html_Inr)
  from ps obtain items blocks where items: "sorted_by_name lower selection = Inr items"
    and blocks: "list_all2 (\<lambda>kv b. html_block base_url kv = Inr b) items blocks"
    and eq: "ps = html_open (preheader_text total_issues (isoformat d)) (isoformat d) total_issues @
              (if selection = [] then html_no_selection else []) @ concat blocks @ html_end"
    by (rule html_pieces_Inr)
  note bd = html_blocks_data [OF blocks]
  from eq bd have data: "data_of ps = concat (map block_data items)"
    by (simp add: data_of_append data_of_concat html_open_data html_fixed_data)
  from eq bd have lits: "set (lits_of ps) \<subseteq> set template_lits"
    by (simp add: lits_of_append lits_of_concat html_open_lits html_fixed_lits)
  have "\<forall>t \<in> set (data_of ps). no_raw_markup t"
    unfolding data using block_data_safe by auto
  with ps h items data lits show ?thesis by blast
qed

theorem html_user_text_escaped_witness:
  "build_email_html ascii_lower ex_base ex_date ex_selection 2 = Inr ex_html \<and>
   (\<exists>ps. html_pieces ascii_lower ex_base ex_date ex_selection 2 = Inr ps \<and>
         ex_html = flatten ps \<and>
         data_of ps =
           [''(Sin asignar)'', ''INC-2'', ''INC-2'', ''Printer'', ''(Sin asignar)'',
            ''Ana'', ''INC-1'', ''INC-1'', ''Router &lt;down&gt; &amp; out'', ''Ana''] \<and>
         set (lits_of ps) \<subseteq> set template_lits)"
proof -
  from html_user_text_escaped [OF build_email_html_ex]
  obtain ps items where ps: "html_pieces ascii_lower ex_base ex_date ex_selection 2 = Inr ps"
    "ex_html = flatten ps"
    and items: "sorted_by_name ascii_lower ex_selection = Inr items"
    and data: "data_of ps = concat (map block_data items)"
    and lits: "set (lits_of ps) \<subseteq> set template_lits"
    by blast
  from items have "items = [(key_free, [ex_free]), (key_ana, [ex_ana])]"
    by (simp add: sorted_by_name_ex)
  with data have "data_of ps =
      [''(Sin asignar)'', ''INC-2'', ''INC-2'', ''Printer'', ''(Sin asignar)'',
       ''Ana'', ''INC-1'', ''INC-1'', ''Router &lt;down&gt; &amp; out'', ''Ana'']"
    by (simp add: block_data_ex)
  with ps lits build_email_html_ex show ?thesis by blast
qed

section \<open>Partial records\<close>

text \<open>
  C4, as the claim has it, fails for a partial assignee object: the grouper reads
  \<^verbatim>\<open>assignee["accountId"]\<close> without a default, and a record whose assignee has a display
  name and no account identifier raises \<^verbatim>\<open>KeyError\<close>.
\<close>

theorem partial_assignee_counterexample:
  "group_by_assignee [ex_partial] = Inl KeyError"
  by (simp add: group_by_assignee_def group_key_def ex_partial_def)

text \<open>
  C4, amended. For every issue list of partial records (key, summary, display name,
  \<^verbatim>\<open>fields\<close> or assignee missing, but every assignee object with its account identifier)
  and every bound \<open>k \<ge> 0\<close>, the grouper, the sampler and both renderers return without
  raising; and every missing field is replaced by its placeholder: the grouper files a
  record under the resolved name, each HTML item shows the escaped key, summary and
  assignee name or their placeholders, and each console line does the same.
\<close>

theorem partial_records_tolerated:
  assumes "\<forall>i \<in> set issues. tolerated_record i" and "0 \<le> k"
  shows "(\<exists>g selection h out.
            group_by_assignee issues = Inr g \<and>
            pick_random_per_analyst rnd g k = Inr selection \<and>
            build_email_html lower base_url d selection total_issues = Inr h \<and>
            print_console_summary lower repr base_url selection total_issues = (out, Inr JNull)) \<and>
         (\<forall>i \<in> set issues.
            (\<exists>a. group_key i = Inr (a, JStr (grouped_name i))) \<and>
            html_issue base_url i =
              Inr (html_item (issue_url base_url (escape (shown_key i))) (escape (shown_key i))
                     (escape (shown_summary i)) (escape (shown_assignee i))) \<and>
            console_issue repr base_url i = Inr (console_line base_url i))"
proof -
  from group_by_assignee_tolerated [OF assms(1)]
  obtain g where g: "group_by_assignee issues = Inr g" "is_dict g"
    "\<forall>kv \<in> set g. (\<exists>n. snd (fst kv) = JStr n) \<and> set (snd kv) \<subseteq> set issues"
    by blast
  from pick_random_per_analyst_chosen [OF g(2) assms(2)]
  obtain sel where sel: "pick_random_per_analyst rnd g k = Inr sel"
    and all: "list_all2 (chosen_from (nat k)) g sel"
    by blast
  from chosen_from_tolerated [OF all g(3)] assms(1)
  have ok: "\<forall>kv \<in> set sel. (\<exists>n. snd (fst kv) = JStr n) \<and> (\<forall>i \<in> set (snd kv). tolerated_record i)"
    by blast
  from build_email_html_tolerated [OF ok]
  obtain h where h: "build_email_html lower base_url d sel total_issues = Inr h" by blast
  from print_console_summary_tolerated [OF ok]
  obtain out where out: "print_console_summary lower repr base_url sel total_issues = (out, Inr JNull)"
    by blast
  have each: "(\<exists>a. group_key i = Inr (a, JStr (grouped_name i))) \<and>
      html_issue base_url i =
        Inr (html_item (issue_url base_url (escape (shown_key i))) (escape (shown_key i))
               (escape (shown_summary i)) (escape (shown_assignee i))) \<and>
      console_issue repr base_url i = Inr (console_line base_url i)"
    if "i \<in> set issues" for i
  proof -
    from that assms(1) have t: "tolerated_record i" by simp
    from html_issue_tolerated [OF t] obtain pcs where "html_issue base_url i = Inr pcs" by blast
    with html_issue_shown [OF this] group_key_tolerated [OF t] console_issue_tolerated [OF t]
    show ?thesis by blast
  qed
  from g(1) sel h out have "\<exists>g selection h out.
      group_by_assignee issues = Inr g \<and>
      pick_random_per_analyst rnd g k = Inr selection \<and>
      build_email_html lower base_url d selection total_issues = Inr h \<and>
      print_console_summary lower repr base_url selection total_issues = (out, Inr JNull)"
    by blast
  with each show ?thesis by blast
qed

theorem partial_records_tolerated_witness:
  "tolerated_record ex_ana \<and> tolerated_record ex_free \<and> tolerated_record ex_anon \<and>
   (0::int) \<le> 1 \<and>
   (\<exists>g selection h out.
      group_by_assignee [ex_ana, ex_free, ex_anon] = Inr g \<and>
      pick_random_per_analyst (\<lambda>i. 0) g 1 = Inr selection \<and>
      build_email_html ascii_lower ex_base ex_date selection 3 = Inr h \<and>
      print_console_summary ascii_lower (\<lambda>v. []) ex_base selection 3 = (out, Inr JNull)) \<and>
   (\<exists>a. group_key ex_anon = Inr (a, JStr ''Desconocido'')) \<and>
   html_issue ex_base ex_anon =
     Inr (html_item (issue_url ex_base ''(sin clave)'') ''(sin clave)'' ''(sin resumen)''
            ''(Sin asignar)'') \<and>
   console_issue (\<lambda>v. []) ex_base ex_anon =
     Inr (''  - (sin clave) '' @ em_dash @ '' (sin resumen) '' @ em_dash @
          '' Resp.: (Sin asignar) '' @ em_dash @ '' https://jira.example/browse/(sin clave)'')"
proof -
  have t: "\<forall>i \<in> set [ex_ana, ex_free, ex_anon]. tolerated_record i"
    by (simp add: tolerated_ex)
  have k: "(0::int) \<le> 1" by simp
  note w = partial_records_tolerated [OF t k, of "\<lambda>i. 0" ascii_lower ex_base ex_date 3 "\<lambda>v. []"]
  from w have pipeline: "\<exists>g selection h out.
      group_by_assignee [ex_ana, ex_free, ex_anon] = Inr g \<and>
      pick_random_per_analyst (\<lambda>i. 0) g 1 = Inr selection \<and>
      build_email_html ascii_lower ex_base ex_date selection 3 = Inr h \<and>
      print_console_summary ascii_lower (\<lambda>v. []) ex_base selection 3 = (out, Inr JNull)"
    by (rule conjunct1)
  from w have "(\<exists>a. group_key ex_anon = Inr (a, JStr (grouped_name ex_anon))) \<and>
      html_issue ex_base ex_anon =
        Inr (html_item (issue_url ex_base (escape (shown_key ex_anon))) (escape (shown_key ex_anon))
               (escape (shown_summary ex_anon)) (escape (shown_assignee ex_anon))) \<and>
      console_issue (\<lambda>v. []) ex_base ex_anon = Inr (console_line ex_base ex_anon)"
    by simp
  then have "(\<exists>a. group_key ex_anon = Inr (a, JStr ''Desconocido'')) \<and>
      html_issue ex_base ex_anon =
        Inr (html_item (issue_url ex_base ''(sin clave)'') ''(sin clave)'' ''(sin resumen)''
               ''(Sin asignar)'') \<and>
      console_issue (\<lambda>v. []) ex_base ex_anon =
        Inr (''  - (sin clave) '' @ em_dash @ '' (sin resumen) '' @ em_dash @
             '' Resp.: (Sin asignar) '' @ em_dash @ '' https://jira.example/browse/(sin clave)'')"
    by (simp add: shown_ex_anon escape_ex console_line_def ex_base_def)
  with pipeline tolerated_ex k show ?thesis by blast
qed

end
